theory Spec2Isabelle
  imports Main "HOL-Library.Word" "HOL-Library.AList" "HOL-Library.Sublist"
begin

section \<open>The test harness of test/test.py\<close>

text \<open>
  The harness runs an external program once per test case of a suite, inside a
  shared scratch directory, and aggregates pass/fail per suite. Everything it
  does goes through the file system, the logging module and one subprocess
  call, so the model threads a \<open>world\<close> through every function: the file
  system as a tree, and the trace of the side effects in the order the code
  performs them. A Python exception is the \<open>Inl\<close> of a sum.
\<close>

subsection \<open>Paths and the file system\<close>

type_synonym bytes = "8 word list"

text \<open>A path is the list of its components below the root of the file system.\<close>

type_synonym path = "string list"

datatype node = File bytes | Dir "(string \<times> node) list"

datatype error =
    FileNotFoundError
  | FileExistsError
  | IsADirectoryError
  | NotADirectoryError
  | SameFileError
  | TypeError
  | TOMLDecodeError

fun lookup :: "node \<Rightarrow> path \<Rightarrow> node option" where
  "lookup n [] = Some n"
| "lookup (File b) (x # xs) = None"
| "lookup (Dir es) (x # xs) =
     (case map_of es x of None \<Rightarrow> None | Some c \<Rightarrow> lookup c xs)"

definition is_file :: "node \<Rightarrow> path \<Rightarrow> bool" where
  "is_file t p = (case lookup t p of Some (File b) \<Rightarrow> True | _ \<Rightarrow> False)"

definition is_dir :: "node \<Rightarrow> path \<Rightarrow> bool" where
  "is_dir t p = (case lookup t p of Some (Dir es) \<Rightarrow> True | _ \<Rightarrow> False)"

text \<open>
  The entries of a directory are an association list read through \<open>map_of\<close>;
  \<open>set_entry\<close> binds a name (\<open>Some\<close>) or unbinds it (\<open>None\<close>).
\<close>

definition set_entry ::
  "string \<Rightarrow> node option \<Rightarrow> (string \<times> node) list \<Rightarrow> (string \<times> node) list" where
  "set_entry x v es =
     (case v of None \<Rightarrow> AList.delete x es | Some c \<Rightarrow> AList.update x c es)"

text \<open>
  \<open>store p v t\<close> rewrites the entry at \<open>p\<close>; it changes nothing when the
  parent of \<open>p\<close> is not a directory of \<open>t\<close>, and the root is never replaced.
\<close>

fun store :: "path \<Rightarrow> node option \<Rightarrow> node \<Rightarrow> node" where
  "store [] v n = n"
| "store (x # xs) v (File b) = File b"
| "store [x] v (Dir es) = Dir (set_entry x v es)"
| "store (x # y # ys) v (Dir es) =
     (case map_of es x of
        None \<Rightarrow> Dir es
      | Some c \<Rightarrow> Dir (AList.update x (store (y # ys) v c) es))"

text \<open>The names a directory listing returns, each once.\<close>

definition listdir :: "node \<Rightarrow> path \<Rightarrow> string list" where
  "listdir t p =
     (case lookup t p of Some (Dir es) \<Rightarrow> remdups (map fst es) | _ \<Rightarrow> [])"


definition hidden :: "string \<Rightarrow> bool" where
  "hidden n = (case n of [] \<Rightarrow> False | c # cs \<Rightarrow> c = CHR ''.'')"

text \<open>
  \<open>glob(f"{dir}/*")\<close>: the entries of the directory whose name does not start
  with a dot, as full paths; nothing when the directory does not exist.
\<close>

definition glob_star :: "node \<Rightarrow> path \<Rightarrow> path list" where
  "glob_star t d = map (\<lambda>n. d @ [n]) (filter (\<lambda>n. \<not> hidden n) (listdir t d))"

subsection \<open>pathlib\<close>

fun split_sep :: "char \<Rightarrow> string \<Rightarrow> string list" where
  "split_sep c [] = [[]]"
| "split_sep c (x # xs) =
     (if x = c then [] # split_sep c xs
      else (case split_sep c xs of [] \<Rightarrow> [[x]] | y # ys \<Rightarrow> (x # y) # ys))"

text \<open>
  The components of a path string: empty components and \<open>.\<close> are dropped, as
  pathlib does; \<open>..\<close> is kept as a name and not interpreted.
\<close>

definition parts :: "string \<Rightarrow> path" where
  "parts s = filter (\<lambda>c. c \<noteq> [] \<and> c \<noteq> ''.'') (split_sep CHR ''/'' s)"

text \<open>\<open>base / s\<close>: an absolute \<open>s\<close> replaces the base.\<close>

definition pjoin :: "path \<Rightarrow> string \<Rightarrow> path" where
  "pjoin base s =
     (case s of
        [] \<Rightarrow> base
      | c # cs \<Rightarrow> if c = CHR ''/'' then parts s else base @ parts s)"

definition path_name :: "path \<Rightarrow> string" where
  "path_name p = (if p = [] then [] else last p)"

fun rfind :: "char \<Rightarrow> string \<Rightarrow> nat option" where
  "rfind c [] = None"
| "rfind c (x # xs) =
     (case rfind c xs of
        Some i \<Rightarrow> Some (Suc i)
      | None \<Rightarrow> if x = c then Some 0 else None)"

text \<open>
  \<open>Path.stem\<close>: the final component up to its last dot, when that dot is
  neither the first nor the last character of the name.
\<close>

definition stem :: "path \<Rightarrow> string" where
  "stem p =
     (case rfind CHR ''.'' (path_name p) of
        None \<Rightarrow> path_name p
      | Some i \<Rightarrow>
          if 0 < i \<and> i + 1 < length (path_name p) then take i (path_name p)
          else path_name p)"

definition str_path :: "path \<Rightarrow> string" where
  "str_path p = (if p = [] then ''/'' else concat (map (\<lambda>c. CHR ''/'' # c) p))"

text \<open>
  The directory of test.py, with the root of the model's file system at the
  repository root.
\<close>

definition CWD :: path where
  "CWD = [''test'']"

definition SUITES_DIR :: path where
  "SUITES_DIR = pjoin CWD ''suites''"

definition TEST_DIR :: path where
  "TEST_DIR = pjoin CWD ''inputs''"

definition WORK_DIR :: path where
  "WORK_DIR = pjoin CWD ''__workdir''"

subsection \<open>Formatting\<close>

definition digit :: "nat \<Rightarrow> char" where
  "digit n = ''0123456789'' ! n"

fun str_nat :: "nat \<Rightarrow> string" where
  "str_nat n = (if n < 10 then [digit n] else str_nat (n div 10) @ [digit (n mod 10)])"

declare str_nat.simps [simp del]

definition str_int :: "int \<Rightarrow> string" where
  "str_int i = (if i < 0 then CHR ''-'' # str_nat (nat (- i)) else str_nat (nat i))"

definition ESC :: char where
  "ESC = CHR 0x1B"

definition Color_PASS :: string where
  "Color_PASS = ESC # ''[92m''"

definition Color_FAIL :: string where
  "Color_FAIL = ESC # ''[91m''"

definition Color_ENDC :: string where
  "Color_ENDC = ESC # ''[0m''"

definition Color_BOLD :: string where
  "Color_BOLD = ESC # ''[1m''"

subsection \<open>The world: file system and trace of effects\<close>

datatype level = WARNING | ERROR | INFO

text \<open>
  One event per side-effecting call, in program order. \<open>Log\<close> carries the
  logger's name, the level and the message as passed to the logger; the
  handlers (console and log file) format it further.
\<close>

datatype event =
    Log string level string
  | OsRemove path
  | Rmtree path
  | OsMkdir path
  | OpenAppend path
  | WriteFile path bytes
  | Copy path path
  | Subprocess "string list"

record world =
  fs :: node
  trace :: "event list"

definition emit :: "string \<Rightarrow> level \<Rightarrow> string \<Rightarrow> world \<Rightarrow> world" where
  "emit logger lv msg w = w\<lparr>trace := trace w @ [Log logger lv msg]\<rparr>"

definition os_remove :: "path \<Rightarrow> world \<Rightarrow> error + world" where
  "os_remove p w =
     (case lookup (fs w) p of
        None \<Rightarrow> Inl FileNotFoundError
      | Some (Dir es) \<Rightarrow> Inl IsADirectoryError
      | Some (File b) \<Rightarrow>
          Inr (w\<lparr>fs := store p None (fs w), trace := trace w @ [OsRemove p]\<rparr>))"

definition rmtree :: "path \<Rightarrow> world \<Rightarrow> error + world" where
  "rmtree p w =
     (case lookup (fs w) p of
        None \<Rightarrow> Inl FileNotFoundError
      | Some (File b) \<Rightarrow> Inl NotADirectoryError
      | Some (Dir es) \<Rightarrow>
          Inr (w\<lparr>fs := store p None (fs w), trace := trace w @ [Rmtree p]\<rparr>))"

text \<open>\<open>os.mkdir\<close> creates one directory and needs its parent to exist.\<close>

definition os_mkdir :: "path \<Rightarrow> world \<Rightarrow> error + world" where
  "os_mkdir p w =
     (case lookup (fs w) p of
        Some n \<Rightarrow> Inl FileExistsError
      | None \<Rightarrow>
          if is_dir (fs w) (butlast p)
          then Inr (w\<lparr>fs := store p (Some (Dir [])) (fs w), trace := trace w @ [OsMkdir p]\<rparr>)
          else Inl FileNotFoundError)"

text \<open>\<open>open(p, "wb")\<close> followed by one \<open>write\<close>.\<close>

definition write_bytes :: "path \<Rightarrow> bytes \<Rightarrow> world \<Rightarrow> error + world" where
  "write_bytes p b w =
     (if p = [] \<or> is_dir (fs w) p then Inl IsADirectoryError
      else if is_dir (fs w) (butlast p)
      then Inr (w\<lparr>fs := store p (Some (File b)) (fs w), trace := trace w @ [WriteFile p b]\<rparr>)
      else Inl FileNotFoundError)"

text \<open>
  \<open>logging.FileHandler(p)\<close> opens its file for appending when it is built: the
  file is created empty if absent and kept as it is otherwise.
\<close>

definition open_append :: "path \<Rightarrow> world \<Rightarrow> error + world" where
  "open_append p w =
     (case lookup (fs w) p of
        Some (Dir es) \<Rightarrow> Inl IsADirectoryError
      | Some (File b) \<Rightarrow> Inr (w\<lparr>trace := trace w @ [OpenAppend p]\<rparr>)
      | None \<Rightarrow>
          if is_dir (fs w) (butlast p)
          then Inr (w\<lparr>fs := store p (Some (File [])) (fs w), trace := trace w @ [OpenAppend p]\<rparr>)
          else Inl FileNotFoundError)"

text \<open>
  \<open>shutil.copy(src, dst)\<close>: into the directory \<open>dst\<close> under the name of \<open>src\<close>,
  or onto the path \<open>dst\<close> itself when that is no directory.
\<close>

definition shutil_copy :: "path \<Rightarrow> path \<Rightarrow> world \<Rightarrow> error + world" where
  "shutil_copy src dst w =
     (let target = (if is_dir (fs w) dst then dst @ [path_name src] else dst) in
      if target = src then Inl SameFileError
      else (case lookup (fs w) src of
              None \<Rightarrow> Inl FileNotFoundError
            | Some (Dir es) \<Rightarrow> Inl IsADirectoryError
            | Some (File b) \<Rightarrow>
                if target = [] \<or> is_dir (fs w) target then Inl IsADirectoryError
                else if is_dir (fs w) (butlast target)
                then Inr (w\<lparr>fs := store target (Some (File b)) (fs w),
                            trace := trace w @ [Copy src target]\<rparr>)
                else Inl FileNotFoundError))"

subsection \<open>Workspace: cleandir and mkdir\<close>

text \<open>\<open>__name__\<close>, the prefix of every logger name, for test.py run as a script.\<close>

definition dunder_name :: string where
  "dunder_name = ''__main__''"

definition quoted :: "string \<Rightarrow> string" where
  "quoted s = CHR 0x27 # s @ [CHR 0x27]"

definition backticked :: "string \<Rightarrow> string" where
  "backticked s = CHR 0x60 # s @ [CHR 0x60]"

definition overwriting :: "path \<Rightarrow> world \<Rightarrow> world" where
  "overwriting dir w = emit dunder_name WARNING (''Overwriting '' @ quoted (str_path dir)) w"

definition cleandir :: "path \<Rightarrow> bool \<Rightarrow> world \<Rightarrow> error + world" where
  "cleandir dir quiet w =
     (case (if is_file (fs w) dir
            then os_remove dir (if \<not> quiet then overwriting dir w else w)
            else if is_dir (fs w) dir
            then rmtree dir (if \<not> quiet then overwriting dir w else w)
            else Inr w) of
        Inl e \<Rightarrow> Inl e
      | Inr w1 \<Rightarrow> os_mkdir dir w1)"

definition mkdir :: "path \<Rightarrow> bool \<Rightarrow> world \<Rightarrow> error + world" where
  "mkdir dir quiet w =
     (case (if is_file (fs w) dir
            then os_remove dir (if \<not> quiet then overwriting dir w else w)
            else Inr w) of
        Inl e \<Rightarrow> Inl e
      | Inr w1 \<Rightarrow> if \<not> is_dir (fs w1) dir then os_mkdir dir w1 else Inr w1)"

subsection \<open>Suite configuration\<close>

text \<open>The values of an options block, \<open>dict[str, str | bool]\<close>.\<close>

datatype toml_value = VBool bool | VStr string

definition truthy :: "toml_value \<Rightarrow> bool" where
  "truthy v = (case v of VBool b \<Rightarrow> b | VStr s \<Rightarrow> s \<noteq> [])"

definition collect_options :: "(string \<rightharpoonup> toml_value) \<Rightarrow> toml_value list" where
  "collect_options contents =
     (if (case contents ''option'' of None \<Rightarrow> False | Some v \<Rightarrow> truthy v)
      then [VStr ''--option''] else [])
     @ (case contents ''parameter'' of
          None \<Rightarrow> []
        | Some v \<Rightarrow> [VStr ''--parameter'', v])"

text \<open>
  What \<open>tomllib.load\<close> returns, as far as the harness reads it: the table
  \<open>options\<close> and the table \<open>test\<close> (test name to its fields, in file order),
  each present or not.
\<close>

record config =
  cfg_options :: "(string \<rightharpoonup> toml_value) option"
  cfg_test :: "(string \<times> (string \<rightharpoonup> toml_value)) list option"

subsection \<open>Test cases\<close>

text \<open>
  The fields of a \<open>TestCase\<close>. The field \<open>output\<close> of the source is
  \<open>output_path\<close> here and holds the string \<open>input.stem + ".out"\<close> the path is
  built from; the logger is known by its name, \<open>test_logger\<close>.
\<close>

record TestCase =
  status :: bool
  suite_name :: string
  test_name :: string
  top_results_dir :: path
  input :: path
  output_path :: string
  options :: "toml_value list"
  suite_results_dir :: path
  test_results_dir :: path

record completed_process =
  stdout :: bytes
  stderr :: bytes
  returncode :: int

text \<open>
  The program under test is external: its behaviour is a parameter, from the
  argument vector and the file system it starts in to the file system it
  leaves and the completed process.
\<close>

type_synonym behaviour = "string list \<Rightarrow> node \<Rightarrow> node \<times> completed_process"

definition test_logger :: "TestCase \<Rightarrow> string" where
  "test_logger t = dunder_name @ ''_'' @ suite_name t @ ''_'' @ test_name t"

definition TestCase_clean :: "TestCase \<Rightarrow> world \<Rightarrow> error + world" where
  "TestCase_clean t w = cleandir (test_results_dir t) False w"

definition TestCase_configure_logger :: "TestCase \<Rightarrow> world \<Rightarrow> error + world" where
  "TestCase_configure_logger t w =
     open_append (test_results_dir t @ parts (test_name t @ ''.log'')) w"

definition TestCase_init ::
  "string \<Rightarrow> string \<Rightarrow> path \<Rightarrow> path \<Rightarrow> string \<Rightarrow> toml_value list \<Rightarrow> world
     \<Rightarrow> error + (TestCase \<times> world)" where
  "TestCase_init suite test topdir inp outp opts w =
     (let t = \<lparr>status = True, suite_name = suite, test_name = test,
                top_results_dir = topdir, input = inp, output_path = outp, options = opts,
                suite_results_dir = pjoin topdir suite,
                test_results_dir = pjoin (pjoin topdir suite) test\<rparr> in
      case TestCase_clean t w of
        Inl e \<Rightarrow> Inl e
      | Inr w1 \<Rightarrow>
          (case TestCase_configure_logger t w1 of
             Inl e \<Rightarrow> Inl e
           | Inr w2 \<Rightarrow> Inr (t, w2)))"

definition test_fail :: "string \<Rightarrow> TestCase \<Rightarrow> world \<Rightarrow> TestCase \<times> world" where
  "test_fail msg t w =
     (t\<lparr>status := False\<rparr>,
      emit (test_logger t) INFO
        (test_name t @ '' ['' @ Color_FAIL @ ''FAIL'' @ Color_ENDC @ ''] '' @ msg) w)"

definition test_pass :: "string \<Rightarrow> TestCase \<Rightarrow> world \<Rightarrow> world" where
  "test_pass msg t w =
     emit (test_logger t) INFO
       (test_name t @ '' ['' @ Color_PASS @ ''PASS'' @ Color_ENDC @ ''] '' @ msg) w"

text \<open>
  An argument of the subprocess must be a string or a path: a boolean among
  the options makes \<open>subprocess.run\<close> raise.
\<close>

fun option_args :: "toml_value list \<Rightarrow> error + string list" where
  "option_args [] = Inr []"
| "option_args (VBool b # vs) = Inl TypeError"
| "option_args (VStr s # vs) =
     (case option_args vs of Inl e \<Rightarrow> Inl e | Inr ss \<Rightarrow> Inr (s # ss))"

definition subprocess_run ::
  "behaviour \<Rightarrow> string list \<Rightarrow> world \<Rightarrow> completed_process \<times> world" where
  "subprocess_run prog args w =
     (case prog args (fs w) of
        (t, proc) \<Rightarrow> (proc, \<lparr>fs = t, trace = trace w @ [Subprocess args]\<rparr>))"

fun remove_each :: "path list \<Rightarrow> world \<Rightarrow> error + world" where
  "remove_each [] w = Inr w"
| "remove_each (f # rest) w =
     (case os_remove f w of Inl e \<Rightarrow> Inl e | Inr w1 \<Rightarrow> remove_each rest w1)"

text \<open>The last loop of \<open>TestCase.run\<close>: every match of \<open>WORK_DIR/*\<close> is removed.\<close>

definition drain :: "world \<Rightarrow> error + world" where
  "drain w = remove_each (glob_star (fs w) WORK_DIR) w"

definition copy_back :: "TestCase \<Rightarrow> world \<Rightarrow> error + world" where
  "copy_back t w =
     (case shutil_copy (input t) (test_results_dir t) w of
        Inl e \<Rightarrow> Inl e
      | Inr w1 \<Rightarrow> shutil_copy (pjoin WORK_DIR (output_path t)) (test_results_dir t) w1)"

definition save_stream :: "path \<Rightarrow> bytes \<Rightarrow> world \<Rightarrow> error + world" where
  "save_stream p b w = (if b \<noteq> [] then write_bytes p b w else Inr w)"

text \<open>The status gate of \<open>run\<close>: \<open>if self.status: self.test_pass("")\<close>.\<close>

definition report_pass :: "TestCase \<Rightarrow> world \<Rightarrow> world" where
  "report_pass t w = (if status t then test_pass [] t w else w)"

text \<open>The line \<open>test_fail\<close> logs for a non-zero exit code.\<close>

definition fail_line :: "path \<Rightarrow> TestCase \<Rightarrow> int \<Rightarrow> event" where
  "fail_line program t rc =
     Log (test_logger t) INFO
       (test_name t @ '' ['' @ Color_FAIL @ ''FAIL'' @ Color_ENDC @ ''] ''
          @ str_path program @ '' returned with code '' @ str_int rc)"

text \<open>
  The argument vector of the subprocess:
  \<open>["python3", program, self.input, WORK_DIR / self.output] + self.options\<close>.
\<close>

definition argv :: "path \<Rightarrow> TestCase \<Rightarrow> error + string list" where
  "argv program t =
     (case option_args (options t) of
        Inl e \<Rightarrow> Inl e
      | Inr opts \<Rightarrow>
          Inr ([''python3'', str_path program, str_path (input t),
                str_path (pjoin WORK_DIR (output_path t))] @ opts))"

definition TestCase_run ::
  "behaviour \<Rightarrow> path \<Rightarrow> bool \<Rightarrow> TestCase \<Rightarrow> world \<Rightarrow> error + (TestCase \<times> world)" where
  "TestCase_run prog program copyback t w =
     (case argv program t of
        Inl e \<Rightarrow> Inl e
      | Inr args \<Rightarrow>
     (case subprocess_run prog args w of
        (proc, w1) \<Rightarrow>
     (case save_stream (pjoin (test_results_dir t) (stem program @ ''.stdout''))
             (stdout proc) w1 of
        Inl e \<Rightarrow> Inl e
      | Inr w2 \<Rightarrow>
     (case save_stream (pjoin (test_results_dir t) (stem program @ ''.stderr''))
             (stderr proc) w2 of
        Inl e \<Rightarrow> Inl e
      | Inr w3 \<Rightarrow>
          if returncode proc \<noteq> 0
          then Inr (test_fail (str_path program @ '' returned with code ''
                                 @ str_int (returncode proc)) t w3)
          else
     (case (if copyback then copy_back t (report_pass t w3)
            else Inr (report_pass t w3)) of
        Inl e \<Rightarrow> Inl e
      | Inr w4 \<Rightarrow>
     (case drain w4 of
        Inl e \<Rightarrow> Inl e
      | Inr w5 \<Rightarrow> Inr (t, w5)))))))"

subsection \<open>Test suites\<close>

record TestSuite =
  status :: bool
  suite_name :: string
  tests :: "TestCase list"
  top_results_dir :: path
  suite_results_dir :: path
  options :: "toml_value list"

definition suite_logger :: "TestSuite \<Rightarrow> string" where
  "suite_logger s = dunder_name @ ''_'' @ TestSuite.suite_name s"

definition finished_FAIL :: "TestSuite \<Rightarrow> string" where
  "finished_FAIL s =
     ''Suite '' @ TestSuite.suite_name s @ '' finished with status ''
       @ Color_BOLD @ Color_FAIL @ ''FAIL'' @ Color_ENDC"

definition finished_PASS :: "TestSuite \<Rightarrow> string" where
  "finished_PASS s =
     ''Suite '' @ TestSuite.suite_name s @ '' finished with status ''
       @ Color_BOLD @ Color_PASS @ ''PASS'' @ Color_ENDC"

text \<open>The three reporting methods log and touch no field of the suite.\<close>

definition suite_fail_msg :: "string \<Rightarrow> TestSuite \<Rightarrow> world \<Rightarrow> world" where
  "suite_fail_msg msg s w =
     emit (suite_logger s) INFO (finished_FAIL s) (emit (suite_logger s) ERROR msg w)"

definition suite_fail :: "TestSuite \<Rightarrow> world \<Rightarrow> world" where
  "suite_fail s w = emit (suite_logger s) INFO (finished_FAIL s) w"

definition suite_pass :: "TestSuite \<Rightarrow> world \<Rightarrow> world" where
  "suite_pass s w = emit (suite_logger s) INFO (finished_PASS s) w"

definition TestSuite_clean :: "TestSuite \<Rightarrow> world \<Rightarrow> error + world" where
  "TestSuite_clean s w =
     (case cleandir WORK_DIR True w of
        Inl e \<Rightarrow> Inl e
      | Inr w1 \<Rightarrow>
          (case mkdir (TestSuite.top_results_dir s) False w1 of
             Inl e \<Rightarrow> Inl e
           | Inr w2 \<Rightarrow> cleandir (TestSuite.suite_results_dir s) False w2))"

definition TestSuite_configure_logger :: "TestSuite \<Rightarrow> world \<Rightarrow> error + world" where
  "TestSuite_configure_logger s w =
     open_append
       (TestSuite.suite_results_dir s @ parts (TestSuite.suite_name s @ ''.log'')) w"

definition config_file :: "TestSuite \<Rightarrow> path" where
  "config_file s = pjoin SUITES_DIR (TestSuite.suite_name s @ ''.toml'')"

text \<open>The error messages of \<open>configure_tests\<close> and \<open>run\<close>.\<close>

definition missing_config_msg :: "TestSuite \<Rightarrow> string" where
  "missing_config_msg s =
     ''Suite configuration file '' @ quoted (str_path (config_file s)) @ '' does not exist''"

definition no_input_msg :: "TestSuite \<Rightarrow> string \<Rightarrow> string" where
  "no_input_msg s testcase =
     ''Suite configuration file '' @ quoted (str_path (config_file s))
       @ '' invalid. Testcase '' @ backticked testcase @ '' defines no input.''"

definition invalid_program_msg :: "path \<Rightarrow> string" where
  "invalid_program_msg program =
     ''Program '' @ backticked (str_path program) @ '' is not a valid executable.''"

text \<open>
  The loop of \<open>configure_tests\<close> over \<open>testcases.items()\<close>. An entry without
  \<open>input\<close> reports and returns; the tests built so far stay in \<open>tests\<close>.
\<close>

fun configure_loop ::
  "(string \<times> (string \<rightharpoonup> toml_value)) list \<Rightarrow> TestSuite \<Rightarrow> world
     \<Rightarrow> error + (TestSuite \<times> world)" where
  "configure_loop [] s w = Inr (s, w)"
| "configure_loop ((testcase, content) # rest) s w =
     (case content ''input'' of
        None \<Rightarrow>
          Inr (s, suite_fail_msg (no_input_msg s testcase) s w)
      | Some (VBool b) \<Rightarrow> Inl TypeError
      | Some (VStr i) \<Rightarrow>
          (case TestCase_init (TestSuite.suite_name s) testcase (TestSuite.top_results_dir s)
                  (pjoin TEST_DIR i) (stem (pjoin TEST_DIR i) @ ''.out'')
                  (TestSuite.options s) w of
             Inl e \<Rightarrow> Inl e
           | Inr (t, w1) \<Rightarrow> configure_loop rest (s\<lparr>tests := tests s @ [t]\<rparr>) w1))"

text \<open>
  \<open>testcases\<close> and \<open>self.options\<close> as \<open>configure_tests\<close> reads them off the
  parsed configuration: empty when the table is absent.
\<close>

definition testcases :: "config \<Rightarrow> (string \<times> (string \<rightharpoonup> toml_value)) list" where
  "testcases cfg = (case cfg_test cfg of None \<Rightarrow> [] | Some ts \<Rightarrow> ts)"

definition shared_options :: "config \<Rightarrow> toml_value list" where
  "shared_options cfg = (case cfg_options cfg of None \<Rightarrow> [] | Some c \<Rightarrow> collect_options c)"

text \<open>The parser of the configuration format is a parameter, \<open>toml\<close>.\<close>

definition TestSuite_configure_tests ::
  "(bytes \<Rightarrow> error + config) \<Rightarrow> TestSuite \<Rightarrow> world \<Rightarrow> error + (TestSuite \<times> world)" where
  "TestSuite_configure_tests toml s w =
     (case lookup (fs w) (config_file s) of
        Some (File b) \<Rightarrow>
          (case toml b of
             Inl e \<Rightarrow> Inl e
           | Inr cfg \<Rightarrow>
               configure_loop (testcases cfg) (s\<lparr>options := shared_options cfg\<rparr>) w)
      | _ \<Rightarrow>
          Inr (s, suite_fail_msg (missing_config_msg s) s w))"

text \<open>The fields as \<open>__init__\<close> sets them before it cleans and configures.\<close>

definition new_suite :: "string \<Rightarrow> path \<Rightarrow> TestSuite" where
  "new_suite name topdir =
     \<lparr>status = True, suite_name = name, tests = [], top_results_dir = topdir,
      suite_results_dir = pjoin topdir name, options = []\<rparr>"

definition TestSuite_init ::
  "(bytes \<Rightarrow> error + config) \<Rightarrow> string \<Rightarrow> path \<Rightarrow> world \<Rightarrow> error + (TestSuite \<times> world)" where
  "TestSuite_init toml name topdir w =
     (let s = new_suite name topdir in
      case TestSuite_clean s w of
        Inl e \<Rightarrow> Inl e
      | Inr w1 \<Rightarrow>
          (case TestSuite_configure_logger s w1 of
             Inl e \<Rightarrow> Inl e
           | Inr w2 \<Rightarrow> TestSuite_configure_tests toml s w2))"

text \<open>
  The loop of \<open>TestSuite.run\<close>: each test is run and the suite status becomes
  \<open>test.status and self.status\<close>. The tests are returned as the run left them.
\<close>

fun run_tests ::
  "behaviour \<Rightarrow> path \<Rightarrow> bool \<Rightarrow> TestCase list \<Rightarrow> bool \<Rightarrow> world
     \<Rightarrow> error + (TestCase list \<times> bool \<times> world)" where
  "run_tests prog program copyback [] st w = Inr ([], st, w)"
| "run_tests prog program copyback (t # ts) st w =
     (case TestCase_run prog program copyback t w of
        Inl e \<Rightarrow> Inl e
      | Inr (t1, w1) \<Rightarrow>
          (case run_tests prog program copyback ts (TestCase.status t1 \<and> st) w1 of
             Inl e \<Rightarrow> Inl e
           | Inr (ts1, st1, w2) \<Rightarrow> Inr (t1 # ts1, st1, w2)))"

definition TestSuite_run ::
  "behaviour \<Rightarrow> path \<Rightarrow> bool \<Rightarrow> TestSuite \<Rightarrow> world \<Rightarrow> error + (TestSuite \<times> world)" where
  "TestSuite_run prog program copyback s w =
     (if \<not> is_file (fs w) program
      then Inr (s, suite_fail_msg (invalid_program_msg program) s w)
      else if \<not> TestSuite.status s then Inr (s, w)
      else
        (case run_tests prog program copyback (tests s) (TestSuite.status s) w of
           Inl e \<Rightarrow> Inl e
         | Inr (ts1, st1, w1) \<Rightarrow>
             Inr (s\<lparr>TestSuite.status := st1, tests := ts1\<rparr>,
                  if \<not> st1 then suite_fail s w1 else suite_pass s w1)))"

subsection \<open>The run controller\<close>

fun construct_suites ::
  "(bytes \<Rightarrow> error + config) \<Rightarrow> path \<Rightarrow> string list \<Rightarrow> world
     \<Rightarrow> error + (TestSuite list \<times> world)" where
  "construct_suites toml results_dir [] w = Inr ([], w)"
| "construct_suites toml results_dir (n # ns) w =
     (case TestSuite_init toml n results_dir w of
        Inl e \<Rightarrow> Inl e
      | Inr (s, w1) \<Rightarrow>
          (case construct_suites toml results_dir ns w1 of
             Inl e \<Rightarrow> Inl e
           | Inr (ss, w2) \<Rightarrow> Inr (s # ss, w2)))"

fun run_suites ::
  "behaviour \<Rightarrow> path \<Rightarrow> bool \<Rightarrow> TestSuite list \<Rightarrow> world
     \<Rightarrow> error + (TestSuite list \<times> world)" where
  "run_suites prog program copyback [] w = Inr ([], w)"
| "run_suites prog program copyback (s # ss) w =
     (case TestSuite_run prog program copyback s w of
        Inl e \<Rightarrow> Inl e
      | Inr (s1, w1) \<Rightarrow>
          (case run_suites prog program copyback ss w1 of
             Inl e \<Rightarrow> Inl e
           | Inr (ss1, w2) \<Rightarrow> Inr (s1 # ss1, w2)))"

definition main ::
  "behaviour \<Rightarrow> (bytes \<Rightarrow> error + config) \<Rightarrow> path \<Rightarrow> path \<Rightarrow> string list \<Rightarrow> bool \<Rightarrow> world
     \<Rightarrow> error + (TestSuite list \<times> world)" where
  "main prog toml program results_dir suite_names copyback w =
     (case construct_suites toml results_dir suite_names w of
        Inl e \<Rightarrow> Inl e
      | Inr (suites, w1) \<Rightarrow> run_suites prog program copyback suites w1)"

subsection \<open>Observations on worlds and traces\<close>

text \<open>The argument vectors of the subprocesses of a trace, in order.\<close>

fun executions :: "event list \<Rightarrow> string list list" where
  "executions [] = []"
| "executions (Subprocess a # es) = a # executions es"
| "executions (e # es) = executions es"

text \<open>The copies of a trace, source and written file, in order.\<close>

fun copies :: "event list \<Rightarrow> (path \<times> path) list" where
  "copies [] = []"
| "copies (Copy src dst # es) = (src, dst) # copies es"
| "copies (e # es) = copies es"

text \<open>
  Two lookups agree in kind: both absent, the same file, or both directories.
\<close>

definition same_kind :: "node option \<Rightarrow> node option \<Rightarrow> bool" where
  "same_kind a b =
     (case a of
        None \<Rightarrow> b = None
      | Some (File c) \<Rightarrow> b = Some (File c)
      | Some (Dir es) \<Rightarrow> (case b of Some (Dir es') \<Rightarrow> True | _ \<Rightarrow> False))"

definition has_input :: "string \<times> (string \<rightharpoonup> toml_value) \<Rightarrow> bool" where
  "has_input entry = (case snd entry ''input'' of None \<Rightarrow> False | Some v \<Rightarrow> True)"

subsection \<open>Sample programs, configurations and worlds\<close>

text \<open>
  A program in the manner of example_program.py: it copies its input file to
  its output path, prints \<open>Done!\<close> and exits 0, or complains and exits 1 when
  the input is no file.
\<close>

definition copy_program :: behaviour where
  "copy_program args t =
     (case lookup t (parts (args ! 2)) of
        Some (File b) \<Rightarrow>
          (store (parts (args ! 3)) (Some (File b)) t,
           \<lparr>stdout = [68, 111, 110, 101, 33], stderr = [], returncode = 0\<rparr>)
      | _ \<Rightarrow> (t, \<lparr>stdout = [], stderr = [69, 114, 114, 111, 114], returncode = 1\<rparr>))"

text \<open>A program that writes its output file and then exits with code 1.\<close>

definition write_then_fail :: behaviour where
  "write_then_fail args t =
     (store (parts (args ! 3)) (Some (File [120])) t,
      \<lparr>stdout = [], stderr = [], returncode = 1\<rparr>)"

text \<open>
  A checkout with the program at the root, one input file and the
  configuration file of the suite \<open>demo\<close>.
\<close>

definition demo_fs :: node where
  "demo_fs =
     Dir [(''test'', Dir [(''suites'', Dir [(''demo.toml'', File [1])]),
                          (''inputs'', Dir [(''a.txt'', File [104, 105])])]),
          (''prog.py'', File [2])]"

definition demo_world :: world where
  "demo_world = \<lparr>fs = demo_fs, trace = []\<rparr>"

definition one_test :: "bytes \<Rightarrow> error + config" where
  "one_test b =
     Inr \<lparr>cfg_options = Some [''option'' \<mapsto> VBool True],
          cfg_test = Some [(''t1'', [''input'' \<mapsto> VStr ''a.txt''])]\<rparr>"

definition second_without_input :: "bytes \<Rightarrow> error + config" where
  "second_without_input b =
     Inr \<lparr>cfg_options = None,
          cfg_test = Some [(''t1'', [''input'' \<mapsto> VStr ''a.txt'']), (''t2'', Map.empty)]\<rparr>"

definition no_tests :: "bytes \<Rightarrow> error + config" where
  "no_tests b = Inr \<lparr>cfg_options = None, cfg_test = None\<rparr>"

text \<open>
  The suite \<open>demo\<close> with its one test as the constructor leaves them, and the
  world after construction.
\<close>

definition demo_suite :: TestSuite where
  "demo_suite = fst (projr (TestSuite_init one_test ''demo'' [''results''] demo_world))"

definition demo_ready :: world where
  "demo_ready = snd (projr (TestSuite_init one_test ''demo'' [''results''] demo_world))"

definition demo_t1 :: TestCase where
  "demo_t1 = hd (tests demo_suite)"

text \<open>
  The world in which the suite \<open>demo\<close> configures its tests: the directories
  cleaned and the suite's log file opened.
\<close>

definition demo_cleaned :: world where
  "demo_cleaned =
     projr (TestSuite_configure_logger (new_suite ''demo'' [''results''])
              (projr (TestSuite_clean (new_suite ''demo'' [''results'']) demo_world)))"

text \<open>A suite whose first test names an input that does not exist.\<close>

definition missing_then_present :: "bytes \<Rightarrow> error + config" where
  "missing_then_present b =
     Inr \<lparr>cfg_options = None,
          cfg_test = Some [(''t0'', [''input'' \<mapsto> VStr ''missing.txt'']),
                           (''t1'', [''input'' \<mapsto> VStr ''a.txt''])]\<rparr>"

definition two_suite :: TestSuite where
  "two_suite =
     fst (projr (TestSuite_configure_tests missing_then_present
                   (new_suite ''demo'' [''results'']) demo_cleaned))"

definition two_ready :: world where
  "two_ready =
     snd (projr (TestSuite_configure_tests missing_then_present
                   (new_suite ''demo'' [''results'']) demo_cleaned))"

text \<open>The suite whose second test declares no input, as configured.\<close>

definition partial_suite :: TestSuite where
  "partial_suite =
     fst (projr (TestSuite_configure_tests second_without_input
                   (new_suite ''demo'' [''results'']) demo_cleaned))"

definition partial_ready :: world where
  "partial_ready =
     snd (projr (TestSuite_configure_tests second_without_input
                   (new_suite ''demo'' [''results'']) demo_cleaned))"

text \<open>Whole runs of the controller on the sample checkout.\<close>

definition missing_config_run :: "error + (TestSuite list \<times> world)" where
  "missing_config_run =
     main copy_program one_test [''prog.py''] [''results''] [''nosuch''] False demo_world"

definition partial_run :: "error + (TestSuite list \<times> world)" where
  "partial_run =
     main copy_program second_without_input [''prog.py''] [''results''] [''demo''] False
       demo_world"

definition failing_run :: "error + (TestSuite list \<times> world)" where
  "failing_run =
     main write_then_fail one_test [''prog.py''] [''results''] [''demo''] False demo_world"

definition passing_run :: "error + (TestSuite list \<times> world)" where
  "passing_run =
     main copy_program one_test [''prog.py''] [''results''] [''demo''] True demo_world"

definition no_tests_run :: "error + (TestSuite list \<times> world)" where
  "no_tests_run =
     main copy_program no_tests [''prog.py''] [''results''] [''demo''] False demo_world"

section \<open>Properties\<close>

subsection \<open>The file system\<close>

lemma map_of_set_entry: "map_of (set_entry x v es) = (map_of es)(x := v)"
  by (cases v) (auto simp: set_entry_def update_conv' fun_eq_iff delete_conv)

text \<open>After a store below an existing directory, the path holds what was stored.\<close>

lemma lookup_store_same:
  "p \<noteq> [] \<Longrightarrow> is_dir t (butlast p) \<Longrightarrow> lookup (store p v t) p = v"
proof (induction p v t rule: store.induct)
  case (4 x y ys v es)
  then show ?case
    by (auto simp: is_dir_def update_conv' split: option.splits node.splits)
qed (auto simp: is_dir_def map_of_set_entry split: option.splits node.splits if_splits)

lemma same_kind_refl: "same_kind a a"
  by (auto simp: same_kind_def split: option.splits node.splits)

lemma same_kind_Dir: "same_kind (Some (Dir a)) (Some (Dir b))"
  by (simp add: same_kind_def)

text \<open>
  A store at \<open>p\<close> leaves every path that does not extend \<open>p\<close> as it was in
  kind: files keep their contents, directories stay directories.
\<close>

lemma same_kind_store:
  "\<not> prefix p q \<Longrightarrow> same_kind (lookup (store p v t) q) (lookup t q)"
proof (induction p v t arbitrary: q rule: store.induct)
  case (3 x v es)
  then show ?case
    by (cases q) (auto simp: map_of_set_entry same_kind_refl same_kind_Dir)
next
  case (4 x y ys v es)
  show ?case
  proof (cases q)
    case Nil
    then show ?thesis by (auto simp: same_kind_Dir split: option.splits)
  next
    case (Cons z zs)
    show ?thesis
    proof (cases "map_of es x")
      case None
      then show ?thesis by (simp add: same_kind_refl)
    next
      case (Some c)
      show ?thesis
      proof (cases "z = x")
        case True
        with 4(2) Cons have "\<not> prefix (y # ys) zs" by simp
        from 4(1)[OF Some this] Some Cons True show ?thesis
          by (simp add: update_conv')
      next
        case False
        with Some Cons show ?thesis by (simp add: update_conv' same_kind_refl)
      qed
    qed
  qed
qed (auto simp: same_kind_refl)

lemma is_dir_store: "\<not> prefix p q \<Longrightarrow> is_dir (store p v t) q = is_dir t q"
  using same_kind_store[of p q v t]
  by (auto simp: is_dir_def same_kind_def split: option.splits node.splits)

lemma is_file_store: "\<not> prefix p q \<Longrightarrow> is_file (store p v t) q = is_file t q"
  using same_kind_store[of p q v t]
  by (auto simp: is_file_def same_kind_def split: option.splits node.splits)

lemma not_prefix_butlast: "p \<noteq> [] \<Longrightarrow> \<not> prefix p (butlast p)"
  by (metis append_butlast_last_id append_self_conv prefix_order.antisym prefix_def
      not_Cons_self2 prefixI)

lemma is_dir_parent_store:
  "p \<noteq> [] \<Longrightarrow> is_dir (store p v t) (butlast p) = is_dir t (butlast p)"
  by (simp add: is_dir_store not_prefix_butlast)

lemma lookup_append:
  "lookup t (p @ r) = (case lookup t p of None \<Rightarrow> None | Some m \<Rightarrow> lookup m r)"
proof (induction p arbitrary: t)
  case Nil
  then show ?case by simp
next
  case (Cons x p)
  then show ?case by (cases t) (auto split: option.splits)
qed

lemma is_dir_prefix: "is_dir t q \<Longrightarrow> prefix p q \<Longrightarrow> is_dir t p"
proof -
  assume d: "is_dir t q" and "prefix p q"
  then obtain r where q: "q = p @ r" by (auto simp: prefix_def)
  show "is_dir t p"
  proof (cases "lookup t p")
    case None
    with d q show ?thesis by (simp add: is_dir_def lookup_append)
  next
    case (Some m)
    show ?thesis
    proof (cases m)
      case (File b)
      with Some d q show ?thesis by (cases r) (auto simp: is_dir_def lookup_append)
    next
      case (Dir es)
      with Some show ?thesis by (simp add: is_dir_def)
    qed
  qed
qed

text \<open>What a store does to the directory that holds the entry.\<close>

lemma lookup_store_parent:
  "lookup (store (d @ [n]) v t) d =
     (case lookup t d of
        Some (Dir es) \<Rightarrow> Some (Dir (set_entry n v es))
      | x \<Rightarrow> x)"
proof (induction d arbitrary: t)
  case Nil
  then show ?case by (cases t) simp_all
next
  case (Cons x xs)
  obtain y ys where ys: "xs @ [n] = y # ys" by (cases "xs @ [n]") auto
  show ?case
  proof (cases t)
    case (File b)
    then show ?thesis by simp
  next
    case (Dir es)
    show ?thesis
    proof (cases "map_of es x")
      case None
      with Dir ys show ?thesis by simp
    next
      case (Some c)
      from Cons.IH[of c] Dir Some ys show ?thesis
        by (simp add: update_conv')
    qed
  qed
qed

lemma names_delete: "remdups (map fst (AList.delete n es)) = removeAll n (remdups (map fst es))"
proof -
  have "map fst (AList.delete n es) = filter (\<lambda>k. n \<noteq> k) (map fst es)"
    by (induction es) (auto simp: AList.delete_eq)
  then show ?thesis by (simp add: remdups_filter removeAll_filter_not_eq)
qed

subsection \<open>Workspace manager\<close>

text \<open>
  \<open>os.mkdir\<close> creates a single level: below an existing directory \<open>cleandir\<close>
  and \<open>mkdir\<close> return, and they return only there.
\<close>

lemma cleandir_creates:
  assumes "dir \<noteq> []" and "is_dir (fs w) (butlast dir)"
  shows "\<exists>w'. cleandir dir quiet w = Inr w'
           \<and> lookup (fs w') dir = Some (Dir [])
           \<and> trace w' = trace w
               @ (if lookup (fs w) dir \<noteq> None \<and> \<not> quiet
                  then [Log dunder_name WARNING (''Overwriting '' @ quoted (str_path dir))]
                  else [])
               @ (case lookup (fs w) dir of
                    None \<Rightarrow> []
                  | Some (File b) \<Rightarrow> [OsRemove dir]
                  | Some (Dir es) \<Rightarrow> [Rmtree dir])
               @ [OsMkdir dir]"
proof (cases "lookup (fs w) dir")
  case None
  with assms show ?thesis
    by (simp add: cleandir_def is_file_def is_dir_def os_mkdir_def lookup_store_same)
next
  case (Some n)
  have gone: "lookup (store dir None (fs w)) dir = None"
    using assms by (simp add: lookup_store_same)
  have parent: "is_dir (store dir None (fs w)) (butlast dir)"
    using assms by (simp add: is_dir_parent_store)
  have made: "lookup (store dir (Some (Dir [])) (store dir None (fs w))) dir = Some (Dir [])"
    using assms(1) parent by (simp add: lookup_store_same)
  show ?thesis
  proof (cases n)
    case (File b)
    with Some gone parent made show ?thesis
      by (simp add: cleandir_def is_file_def is_dir_def os_remove_def os_mkdir_def
          overwriting_def emit_def)
  next
    case (Dir es)
    with Some gone parent made show ?thesis
      by (simp add: cleandir_def is_file_def is_dir_def rmtree_def os_mkdir_def
          overwriting_def emit_def)
  qed
qed

lemma mkdir_creates:
  "(is_dir (fs w) dir \<longrightarrow> mkdir dir quiet w = Inr w)
   \<and> (dir \<noteq> [] \<and> is_dir (fs w) (butlast dir) \<and> \<not> is_dir (fs w) dir \<longrightarrow>
        (\<exists>w'. mkdir dir quiet w = Inr w'
           \<and> lookup (fs w') dir = Some (Dir [])
           \<and> trace w' = trace w
               @ (if is_file (fs w) dir \<and> \<not> quiet
                  then [Log dunder_name WARNING (''Overwriting '' @ quoted (str_path dir))]
                  else [])
               @ (if is_file (fs w) dir then [OsRemove dir] else [])
               @ [OsMkdir dir]))"
proof (intro conjI impI)
  assume "is_dir (fs w) dir"
  then show "mkdir dir quiet w = Inr w"
    by (auto simp: mkdir_def is_dir_def is_file_def split: option.splits node.splits)
next
  assume a: "dir \<noteq> [] \<and> is_dir (fs w) (butlast dir) \<and> \<not> is_dir (fs w) dir"
  have gone: "lookup (store dir None (fs w)) dir = None"
    using a by (simp add: lookup_store_same)
  have parent: "is_dir (store dir None (fs w)) (butlast dir)"
    using a by (simp add: is_dir_parent_store)
  have made: "lookup (store dir (Some (Dir [])) (store dir None (fs w))) dir = Some (Dir [])"
    using a parent by (simp add: lookup_store_same)
  have made': "lookup (store dir (Some (Dir [])) (fs w)) dir = Some (Dir [])"
    using a by (simp add: lookup_store_same)
  show "\<exists>w'. mkdir dir quiet w = Inr w'
           \<and> lookup (fs w') dir = Some (Dir [])
           \<and> trace w' = trace w
               @ (if is_file (fs w) dir \<and> \<not> quiet
                  then [Log dunder_name WARNING (''Overwriting '' @ quoted (str_path dir))]
                  else [])
               @ (if is_file (fs w) dir then [OsRemove dir] else [])
               @ [OsMkdir dir]"
  proof (cases "lookup (fs w) dir")
    case None
    with a made' show ?thesis
      by (simp add: mkdir_def is_file_def is_dir_def os_mkdir_def)
  next
    case (Some n)
    with a obtain b where "n = File b"
      by (cases n) (auto simp: is_dir_def)
    with Some a gone parent made show ?thesis
      by (simp add: mkdir_def is_file_def is_dir_def os_remove_def os_mkdir_def
          overwriting_def emit_def)
  qed
qed

lemma os_mkdir_needs_parent:
  "os_mkdir p w = Inr w' \<Longrightarrow> p \<noteq> [] \<and> is_dir (fs w) (butlast p)"
  by (cases p) (auto simp: os_mkdir_def split: option.splits if_splits)

lemma overwriting_fs: "fs (overwriting p w) = fs w"
  by (simp add: overwriting_def emit_def)

lemma entry_has_parent:
  assumes "lookup t p = Some n" and "p \<noteq> []"
  shows "is_dir t (butlast p)"
proof -
  from assms(2) have p: "p = butlast p @ [last p]" by simp
  from assms(1) have "lookup t (butlast p @ [last p]) = Some n" using p by simp
  then show ?thesis
    by (auto simp: lookup_append is_dir_def split: option.splits node.splits)
qed

lemma cleandir_needs_parent:
  assumes "cleandir dir quiet w = Inr w'"
  shows "dir \<noteq> [] \<and> is_dir (fs w) (butlast dir)"
proof -
  let ?w0 = "if \<not> quiet then overwriting dir w else w"
  from assms obtain w1 where
    pre: "(if is_file (fs w) dir then os_remove dir ?w0
           else if is_dir (fs w) dir then rmtree dir ?w0 else Inr w) = Inr w1" and
    mk: "os_mkdir dir w1 = Inr w'"
    unfolding cleandir_def by (auto split: sum.splits)
  from os_mkdir_needs_parent[OF mk] have ne: "dir \<noteq> []" and p1: "is_dir (fs w1) (butlast dir)"
    by simp_all
  show ?thesis
  proof (cases "lookup (fs w) dir")
    case None
    with pre have "w1 = w" by (simp add: is_file_def is_dir_def)
    with ne p1 show ?thesis by simp
  next
    case (Some n)
    with ne entry_has_parent show ?thesis by blast
  qed
qed

lemma mkdir_needs_parent:
  assumes "mkdir dir quiet w = Inr w'" and "\<not> is_dir (fs w) dir"
  shows "dir \<noteq> [] \<and> is_dir (fs w) (butlast dir)"
proof (cases "lookup (fs w) dir")
  case None
  with assms have "os_mkdir dir w = Inr w'"
    by (simp add: mkdir_def is_file_def is_dir_def)
  then show ?thesis by (rule os_mkdir_needs_parent)
next
  case (Some n)
  have "dir \<noteq> []"
  proof
    assume "dir = []"
    with assms Some show False
      by (auto simp: mkdir_def is_file_def is_dir_def os_remove_def os_mkdir_def
          overwriting_fs split: node.splits if_splits sum.splits)
  qed
  with Some entry_has_parent show ?thesis by blast
qed

text \<open>
  Claim C8. Whatever is at \<open>dir\<close> (nothing, a regular file or a directory),
  when \<open>cleandir dir quiet\<close> has returned, \<open>dir\<close> is an empty directory; when
  something was there and \<open>quiet\<close> is false, the warning has been logged
  before the removal. The call returns whenever the parent of \<open>dir\<close> is an
  existing directory.
\<close>

theorem cleandir_fresh:
  "(dir \<noteq> [] \<and> is_dir (fs w) (butlast dir) \<longrightarrow> (\<exists>w'. cleandir dir quiet w = Inr w'))
   \<and> (\<forall>w'. cleandir dir quiet w = Inr w' \<longrightarrow>
          lookup (fs w') dir = Some (Dir [])
          \<and> trace w' = trace w
               @ (if lookup (fs w) dir \<noteq> None \<and> \<not> quiet
                  then [Log dunder_name WARNING (''Overwriting '' @ quoted (str_path dir))]
                  else [])
               @ (case lookup (fs w) dir of
                    None \<Rightarrow> []
                  | Some (File b) \<Rightarrow> [OsRemove dir]
                  | Some (Dir es) \<Rightarrow> [Rmtree dir])
               @ [OsMkdir dir])"
proof (rule conjI)
  show "dir \<noteq> [] \<and> is_dir (fs w) (butlast dir) \<longrightarrow> (\<exists>w'. cleandir dir quiet w = Inr w')"
    using cleandir_creates[of dir w quiet] by blast
next
  show "\<forall>w'. cleandir dir quiet w = Inr w' \<longrightarrow>
          lookup (fs w') dir = Some (Dir [])
          \<and> trace w' = trace w
               @ (if lookup (fs w) dir \<noteq> None \<and> \<not> quiet
                  then [Log dunder_name WARNING (''Overwriting '' @ quoted (str_path dir))]
                  else [])
               @ (case lookup (fs w) dir of
                    None \<Rightarrow> []
                  | Some (File b) \<Rightarrow> [OsRemove dir]
                  | Some (Dir es) \<Rightarrow> [Rmtree dir])
               @ [OsMkdir dir]"
  proof (rule allI, rule impI)
    fix w'
    assume r: "cleandir dir quiet w = Inr w'"
    from cleandir_needs_parent[OF r] cleandir_creates[of dir w quiet] r
    show "lookup (fs w') dir = Some (Dir [])
          \<and> trace w' = trace w
               @ (if lookup (fs w) dir \<noteq> None \<and> \<not> quiet
                  then [Log dunder_name WARNING (''Overwriting '' @ quoted (str_path dir))]
                  else [])
               @ (case lookup (fs w) dir of
                    None \<Rightarrow> []
                  | Some (File b) \<Rightarrow> [OsRemove dir]
                  | Some (Dir es) \<Rightarrow> [Rmtree dir])
               @ [OsMkdir dir]"
      by auto
  qed
qed

theorem cleandir_fresh_witness:
  "[''test'', ''inputs''] \<noteq> ([]::path)
   \<and> is_dir (fs demo_world) (butlast [''test'', ''inputs''])
   \<and> lookup (fs demo_world) [''test'', ''inputs''] = Some (Dir [(''a.txt'', File [104, 105])])
   \<and> lookup (fs (projr (cleandir [''test'', ''inputs''] False demo_world)))
        [''test'', ''inputs''] = Some (Dir [])
   \<and> trace (projr (cleandir [''test'', ''inputs''] False demo_world))
       = [Log ''__main__'' WARNING (''Overwriting '' @ quoted ''/test/inputs''),
          Rmtree [''test'', ''inputs''], OsMkdir [''test'', ''inputs'']]"
proof -
  let ?r = "cleandir [''test'', ''inputs''] False demo_world"
  have h1: "[''test'', ''inputs''] \<noteq> ([]::path)" by simp
  have h2: "is_dir (fs demo_world) (butlast [''test'', ''inputs''])" by code_simp
  have h3: "lookup (fs demo_world) [''test'', ''inputs'']
              = Some (Dir [(''a.txt'', File [104, 105])])" by code_simp
  have h4: "?r = Inr (projr ?r)" by code_simp
  have v: "trace demo_world = []" "dunder_name = ''__main__''"
    "str_path [''test'', ''inputs''] = ''/test/inputs''" by code_simp+
  from cleandir_fresh[of "[''test'', ''inputs'']" demo_world False] h4
  have "lookup (fs (projr ?r)) [''test'', ''inputs''] = Some (Dir [])
        \<and> trace (projr ?r) = trace demo_world
               @ (if lookup (fs demo_world) [''test'', ''inputs''] \<noteq> None \<and> \<not> False
                  then [Log dunder_name WARNING
                          (''Overwriting '' @ quoted (str_path [''test'', ''inputs'']))]
                  else [])
               @ (case lookup (fs demo_world) [''test'', ''inputs''] of
                    None \<Rightarrow> []
                  | Some (File b) \<Rightarrow> [OsRemove [''test'', ''inputs'']]
                  | Some (Dir es) \<Rightarrow> [Rmtree [''test'', ''inputs'']])
               @ [OsMkdir [''test'', ''inputs'']]"
    by blast
  with h1 h2 h3 v show ?thesis by simp
qed

text \<open>
  Claim C9. When \<open>mkdir dir quiet\<close> has returned: if \<open>dir\<close> was a directory,
  nothing has changed, the world returned is the one given, so the directory
  keeps all its entries; if a regular file was at \<open>dir\<close>, the file has been
  removed and an empty directory created in its place; if \<open>dir\<close> was absent, an
  empty directory has been created. The call returns whenever \<open>dir\<close> is a
  directory or its parent is one.
\<close>

theorem mkdir_cases:
  "(is_dir (fs w) dir \<or> dir \<noteq> [] \<and> is_dir (fs w) (butlast dir) \<longrightarrow>
      (\<exists>w'. mkdir dir quiet w = Inr w'))
   \<and> (\<forall>w'. mkdir dir quiet w = Inr w' \<longrightarrow>
          (is_dir (fs w) dir \<longrightarrow> w' = w)
          \<and> (\<not> is_dir (fs w) dir \<longrightarrow>
               lookup (fs w') dir = Some (Dir [])
               \<and> trace w' = trace w
               @ (if is_file (fs w) dir \<and> \<not> quiet
                  then [Log dunder_name WARNING (''Overwriting '' @ quoted (str_path dir))]
                  else [])
               @ (if is_file (fs w) dir then [OsRemove dir] else [])
               @ [OsMkdir dir]))"
proof (rule conjI)
  show "is_dir (fs w) dir \<or> dir \<noteq> [] \<and> is_dir (fs w) (butlast dir) \<longrightarrow>
          (\<exists>w'. mkdir dir quiet w = Inr w')"
    using mkdir_creates[of w dir quiet] by blast
next
  show "\<forall>w'. mkdir dir quiet w = Inr w' \<longrightarrow>
          (is_dir (fs w) dir \<longrightarrow> w' = w)
          \<and> (\<not> is_dir (fs w) dir \<longrightarrow>
               lookup (fs w') dir = Some (Dir [])
               \<and> trace w' = trace w
               @ (if is_file (fs w) dir \<and> \<not> quiet
                  then [Log dunder_name WARNING (''Overwriting '' @ quoted (str_path dir))]
                  else [])
               @ (if is_file (fs w) dir then [OsRemove dir] else [])
               @ [OsMkdir dir])"
  proof (rule allI, rule impI, rule conjI)
    fix w'
    assume r: "mkdir dir quiet w = Inr w'"
    from r mkdir_creates[of w dir quiet] show "is_dir (fs w) dir \<longrightarrow> w' = w" by simp
  next
    fix w'
    assume r: "mkdir dir quiet w = Inr w'"
    show "\<not> is_dir (fs w) dir \<longrightarrow>
               lookup (fs w') dir = Some (Dir [])
               \<and> trace w' = trace w
               @ (if is_file (fs w) dir \<and> \<not> quiet
                  then [Log dunder_name WARNING (''Overwriting '' @ quoted (str_path dir))]
                  else [])
               @ (if is_file (fs w) dir then [OsRemove dir] else [])
               @ [OsMkdir dir]"
    proof
      assume nd: "\<not> is_dir (fs w) dir"
      from mkdir_needs_parent[OF r nd] mkdir_creates[of w dir quiet] r nd
      show "lookup (fs w') dir = Some (Dir [])
               \<and> trace w' = trace w
               @ (if is_file (fs w) dir \<and> \<not> quiet
                  then [Log dunder_name WARNING (''Overwriting '' @ quoted (str_path dir))]
                  else [])
               @ (if is_file (fs w) dir then [OsRemove dir] else [])
               @ [OsMkdir dir]"
        by auto
    qed
  qed
qed

theorem mkdir_cases_witness:
  "is_dir (fs demo_world) [''test'', ''inputs'']
   \<and> mkdir [''test'', ''inputs''] False demo_world = Inr demo_world
   \<and> \<not> is_dir (fs demo_world) [''prog.py'']
   \<and> is_file (fs demo_world) [''prog.py'']
   \<and> lookup (fs (projr (mkdir [''prog.py''] False demo_world))) [''prog.py''] = Some (Dir [])
   \<and> \<not> is_dir (fs demo_world) [''results'']
   \<and> \<not> is_file (fs demo_world) [''results'']
   \<and> lookup (fs (projr (mkdir [''results''] False demo_world))) [''results''] = Some (Dir [])"
proof -
  let ?a = "mkdir [''test'', ''inputs''] False demo_world"
  let ?b = "mkdir [''prog.py''] False demo_world"
  let ?c = "mkdir [''results''] False demo_world"
  have h1: "is_dir (fs demo_world) [''test'', ''inputs'']" by code_simp
  have h2: "\<not> is_dir (fs demo_world) [''prog.py'']" "is_file (fs demo_world) [''prog.py'']"
    "\<not> is_dir (fs demo_world) [''results'']" "\<not> is_file (fs demo_world) [''results'']"
    by code_simp+
  have ra: "?a = Inr (projr ?a)" by code_simp
  have rb: "?b = Inr (projr ?b)" by code_simp
  have rc: "?c = Inr (projr ?c)" by code_simp
  from mkdir_cases[of demo_world "[''test'', ''inputs'']" False] ra h1
  have a: "projr ?a = demo_world" by blast
  from mkdir_cases[of demo_world "[''prog.py'']" False] rb h2
  have b: "lookup (fs (projr ?b)) [''prog.py''] = Some (Dir [])" by blast
  from mkdir_cases[of demo_world "[''results'']" False] rc h2
  have c: "lookup (fs (projr ?c)) [''results''] = Some (Dir [])" by blast
  from a ra have "?a = Inr demo_world" by simp
  with h1 h2 b c show ?thesis by simp
qed

subsection \<open>Shared options\<close>

text \<open>
  Claim C7. The option list is a fixed mapping of the options block: the key
  \<open>option\<close> with the boolean value true contributes the single token
  \<open>--option\<close> in front, and with the value false or absent it contributes
  nothing; the key \<open>parameter\<close>, if present, contributes \<open>--parameter\<close>
  followed by its value; binding, changing or removing any other key changes
  nothing.
\<close>

theorem collect_options_mapping:
  "(c ''option'' = Some (VBool True) \<longrightarrow>
      collect_options c = VStr ''--option'' # collect_options (c(''option'' := None)))
   \<and> (c ''option'' = Some (VBool False) \<or> c ''option'' = None \<longrightarrow>
      collect_options c = collect_options (c(''option'' := None)))
   \<and> collect_options (c(''option'' := None)) =
        (case c ''parameter'' of None \<Rightarrow> [] | Some v \<Rightarrow> [VStr ''--parameter'', v])
   \<and> (\<forall>k x. k \<noteq> ''option'' \<and> k \<noteq> ''parameter'' \<longrightarrow>
        collect_options (c(k := x)) = collect_options c)"
  by (auto simp: collect_options_def truthy_def split: option.splits)

theorem collect_options_mapping_witness:
  "collect_options [''option'' \<mapsto> VBool True, ''parameter'' \<mapsto> VStr ''7'', ''colour'' \<mapsto> VStr ''red'']
     = [VStr ''--option'', VStr ''--parameter'', VStr ''7'']
   \<and> collect_options [''option'' \<mapsto> VBool False, ''colour'' \<mapsto> VBool True] = []"
proof -
  have "collect_options [''option'' \<mapsto> VBool True, ''parameter'' \<mapsto> VStr ''7'', ''colour'' \<mapsto> VStr ''red'']
     = [VStr ''--option'', VStr ''--parameter'', VStr ''7'']"
    using collect_options_mapping
      [of "[''option'' \<mapsto> VBool True, ''parameter'' \<mapsto> VStr ''7'', ''colour'' \<mapsto> VStr ''red'']"]
    by simp
  moreover have "collect_options [''option'' \<mapsto> VBool False, ''colour'' \<mapsto> VBool True] = []"
    using collect_options_mapping
      [of "[''option'' \<mapsto> VBool False, ''colour'' \<mapsto> VBool True]"]
    by simp
  ultimately show ?thesis by simp
qed

subsection \<open>Running one test case\<close>

lemma executions_append: "executions (a @ b) = executions a @ executions b"
  by (induction a rule: executions.induct) auto

lemma copies_append: "copies (a @ b) = copies a @ copies b"
  by (induction a rule: copies.induct) auto

lemma write_bytes_effect:
  assumes "write_bytes p b w = Inr w'"
  shows "executions (trace w') = executions (trace w)"
    and "copies (trace w') = copies (trace w)"
    and "is_dir (fs w) d \<Longrightarrow> is_dir (fs w') d"
proof -
  from assms have w': "w' = w\<lparr>fs := store p (Some (File b)) (fs w), trace := trace w @ [WriteFile p b]\<rparr>"
    and nd: "\<not> is_dir (fs w) p"
    by (auto simp: write_bytes_def split: if_splits)
  show "executions (trace w') = executions (trace w)" by (simp add: w' executions_append)
  show "copies (trace w') = copies (trace w)" by (simp add: w' copies_append)
  assume d: "is_dir (fs w) d"
  with nd have "\<not> prefix p d" using is_dir_prefix by blast
  with d show "is_dir (fs w') d" by (simp add: w' is_dir_store)
qed

lemma save_stream_effect:
  assumes "save_stream p b w = Inr w'"
  shows "executions (trace w') = executions (trace w)"
    and "copies (trace w') = copies (trace w)"
    and "is_dir (fs w) d \<Longrightarrow> is_dir (fs w') d"
  using assms write_bytes_effect[of p b w w']
  by (auto simp: save_stream_def split: if_splits)

lemma os_remove_effect:
  assumes "os_remove p w = Inr w'"
  shows "executions (trace w') = executions (trace w)"
    and "copies (trace w') = copies (trace w)"
  using assms
  by (auto simp: os_remove_def executions_append copies_append split: option.splits node.splits)

lemma remove_each_effect:
  "remove_each ps w = Inr w' \<Longrightarrow>
     executions (trace w') = executions (trace w) \<and> copies (trace w') = copies (trace w)"
proof (induction ps arbitrary: w)
  case Nil
  then show ?case by simp
next
  case (Cons p ps)
  then show ?case
    by (auto split: sum.splits dest: os_remove_effect)
qed

lemma drain_effect:
  "drain w = Inr w' \<Longrightarrow>
     executions (trace w') = executions (trace w) \<and> copies (trace w') = copies (trace w)"
  unfolding drain_def by (rule remove_each_effect)

lemma shutil_copy_effect:
  assumes "shutil_copy src dst w = Inr w'" and "is_dir (fs w) dst"
  shows "executions (trace w') = executions (trace w)"
    and "copies (trace w') = copies (trace w) @ [(src, dst @ [path_name src])]"
    and "is_dir (fs w') dst"
    and "lookup (fs w') (dst @ [path_name src]) = lookup (fs w) src"
    and "is_file (fs w) src"
proof -
  from assms obtain b where src: "lookup (fs w) src = Some (File b)"
    and w': "w' = w\<lparr>fs := store (dst @ [path_name src]) (Some (File b)) (fs w),
                  trace := trace w @ [Copy src (dst @ [path_name src])]\<rparr>"
    by (auto simp: shutil_copy_def Let_def split: if_splits option.splits node.splits)
  show "executions (trace w') = executions (trace w)" by (simp add: w' executions_append)
  show "copies (trace w') = copies (trace w) @ [(src, dst @ [path_name src])]"
    by (simp add: w' copies_append)
  show "is_dir (fs w') dst" using assms(2) by (simp add: w' is_dir_store)
  show "lookup (fs w') (dst @ [path_name src]) = lookup (fs w) src"
    using assms(2) by (simp add: w' src lookup_store_same)
  show "is_file (fs w) src" by (simp add: is_file_def src)
qed

lemma shutil_copy_trace:
  assumes "shutil_copy src dst w = Inr w'"
  shows "executions (trace w') = executions (trace w)"
  using assms
  by (auto simp: shutil_copy_def Let_def executions_append
      split: if_splits option.splits node.splits)

lemma copy_back_effect:
  assumes "copy_back t w = Inr w'" and "is_dir (fs w) (test_results_dir t)"
  shows "executions (trace w') = executions (trace w)"
    and "copies (trace w') = copies (trace w)
           @ [(input t, test_results_dir t @ [path_name (input t)]),
              (pjoin WORK_DIR (output_path t),
               test_results_dir t @ [path_name (pjoin WORK_DIR (output_path t))])]"
proof -
  from assms(1) obtain w1 where
    c1: "shutil_copy (input t) (test_results_dir t) w = Inr w1" and
    c2: "shutil_copy (pjoin WORK_DIR (output_path t)) (test_results_dir t) w1 = Inr w'"
    by (auto simp: copy_back_def split: sum.splits)
  note e1 = shutil_copy_effect[OF c1 assms(2)]
  note e2 = shutil_copy_effect[OF c2 e1(3)]
  show "executions (trace w') = executions (trace w)" using e1(1) e2(1) by simp
  show "copies (trace w') = copies (trace w)
           @ [(input t, test_results_dir t @ [path_name (input t)]),
              (pjoin WORK_DIR (output_path t),
               test_results_dir t @ [path_name (pjoin WORK_DIR (output_path t))])]"
    using e1(2) e2(2) by simp
qed


lemma TestCase_run_steps:
  assumes "argv program t = Inr args" and "prog args (fs w) = (t1, proc)"
      and "TestCase_run prog program copyback t w = Inr (t', w')"
  obtains w2 w3 where
    "save_stream (pjoin (test_results_dir t) (stem program @ ''.stdout'')) (stdout proc)
       \<lparr>fs = t1, trace = trace w @ [Subprocess args]\<rparr> = Inr w2"
    "save_stream (pjoin (test_results_dir t) (stem program @ ''.stderr'')) (stderr proc) w2 = Inr w3"
    "returncode proc \<noteq> 0 \<Longrightarrow>
       (t', w') = test_fail (str_path program @ '' returned with code ''
                               @ str_int (returncode proc)) t w3"
    "returncode proc = 0 \<Longrightarrow>
       t' = t \<and> (\<exists>w4. (if copyback then copy_back t (report_pass t w3)
                         else Inr (report_pass t w3)) = Inr w4 \<and> drain w4 = Inr w')"
proof -
  let ?w1 = "\<lparr>fs = t1, trace = trace w @ [Subprocess args]\<rparr>"
  let ?s1 = "save_stream (pjoin (test_results_dir t) (stem program @ ''.stdout'')) (stdout proc) ?w1"
  from assms have a: "(case ?s1 of Inl e \<Rightarrow> Inl e | Inr w2 \<Rightarrow>
     (case save_stream (pjoin (test_results_dir t) (stem program @ ''.stderr''))
             (stderr proc) w2 of
        Inl e \<Rightarrow> Inl e
      | Inr w3 \<Rightarrow>
          if returncode proc \<noteq> 0
          then Inr (test_fail (str_path program @ '' returned with code ''
                                 @ str_int (returncode proc)) t w3)
          else
     (case (if copyback then copy_back t (report_pass t w3)
            else Inr (report_pass t w3)) of
        Inl e \<Rightarrow> Inl e
      | Inr w4 \<Rightarrow>
     (case drain w4 of
        Inl e \<Rightarrow> Inl e
      | Inr w5 \<Rightarrow> Inr (t, w5))))) = Inr (t', w')"
    by (simp add: TestCase_run_def subprocess_run_def)
  then obtain w2 where s1: "?s1 = Inr w2" by (cases ?s1) auto
  let ?s2 = "save_stream (pjoin (test_results_dir t) (stem program @ ''.stderr'')) (stderr proc) w2"
  from a s1 obtain w3 where s2: "?s2 = Inr w3" by (cases ?s2) auto
  from a s1 s2 have b: "(if returncode proc \<noteq> 0
          then Inr (test_fail (str_path program @ '' returned with code ''
                                 @ str_int (returncode proc)) t w3)
          else
     (case (if copyback then copy_back t (report_pass t w3)
            else Inr (report_pass t w3)) of
        Inl e \<Rightarrow> Inl e
      | Inr w4 \<Rightarrow>
     (case drain w4 of
        Inl e \<Rightarrow> Inl e
      | Inr w5 \<Rightarrow> Inr (t, w5)))) = Inr (t', w')" by simp
  have f: "returncode proc \<noteq> 0 \<Longrightarrow>
       (t', w') = test_fail (str_path program @ '' returned with code ''
                               @ str_int (returncode proc)) t w3"
    using b by simp
  have z: "returncode proc = 0 \<Longrightarrow>
       t' = t \<and> (\<exists>w4. (if copyback then copy_back t (report_pass t w3)
                         else Inr (report_pass t w3)) = Inr w4 \<and> drain w4 = Inr w')"
  proof -
    assume rc: "returncode proc = 0"
    let ?c = "(if copyback then copy_back t (report_pass t w3) else Inr (report_pass t w3))"
    from b rc have c: "(case ?c of Inl e \<Rightarrow> Inl e
      | Inr w4 \<Rightarrow> (case drain w4 of Inl e \<Rightarrow> Inl e | Inr w5 \<Rightarrow> Inr (t, w5))) = Inr (t', w')"
      by simp
    then obtain w4 where c4: "?c = Inr w4" by (cases ?c) auto
    with c have "(case drain w4 of Inl e \<Rightarrow> Inl e | Inr w5 \<Rightarrow> Inr (t, w5)) = Inr (t', w')"
      by simp
    then have "t' = t \<and> drain w4 = Inr w'" by (cases "drain w4") auto
    with c4 show ?thesis by blast
  qed
  from that[OF s1 s2 f z] show thesis .
qed

lemma report_pass_effect:
  "executions (trace (report_pass t w)) = executions (trace w)"
  "copies (trace (report_pass t w)) = copies (trace w)"
  "fs (report_pass t w) = fs w"
  by (simp_all add: report_pass_def test_pass_def emit_def executions_append copies_append)

lemma TestCase_run_nonzero:
  assumes "argv program t = Inr args" and "prog args (fs w) = (t1, proc)"
      and "returncode proc \<noteq> 0"
      and "TestCase_run prog program copyback t w = Inr (t', w')"
  shows "t' = t\<lparr>TestCase.status := False\<rparr>"
    and "last (trace w') = fail_line program t (returncode proc)"
    and "executions (trace w') = executions (trace w) @ [args]"
    and "copies (trace w') = copies (trace w)"
proof -
  from TestCase_run_steps[OF assms(1,2,4)] assms(3) obtain w2 w3 where
    s1: "save_stream (pjoin (test_results_dir t) (stem program @ ''.stdout'')) (stdout proc)
       \<lparr>fs = t1, trace = trace w @ [Subprocess args]\<rparr> = Inr w2" and
    s2: "save_stream (pjoin (test_results_dir t) (stem program @ ''.stderr'')) (stderr proc) w2 = Inr w3" and
    r: "(t', w') = test_fail (str_path program @ '' returned with code '' @ str_int (returncode proc)) t w3"
    by metis
  from r show "t' = t\<lparr>TestCase.status := False\<rparr>" by (simp add: test_fail_def)
  from r have tr: "trace w' = trace w3 @ [fail_line program t (returncode proc)]"
    by (simp add: test_fail_def emit_def fail_line_def)
  then show "last (trace w') = fail_line program t (returncode proc)" by simp
  have e: "executions (trace w3) = executions (trace w) @ [args]"
    using save_stream_effect(1)[OF s1] save_stream_effect(1)[OF s2]
    by (simp add: executions_append)
  have c: "copies (trace w3) = copies (trace w)"
    using save_stream_effect(2)[OF s1] save_stream_effect(2)[OF s2]
    by (simp add: copies_append)
  show "executions (trace w') = executions (trace w) @ [args]"
    by (simp add: tr e executions_append fail_line_def)
  show "copies (trace w') = copies (trace w)"
    by (simp add: tr c copies_append fail_line_def)
qed

lemma TestCase_run_zero:
  assumes "argv program t = Inr args" and "prog args (fs w) = (t1, proc)"
      and "returncode proc = 0"
      and "TestCase_run prog program copyback t w = Inr (t', w')"
  shows "t' = t"
    and "executions (trace w') = executions (trace w) @ [args]"
    and "\<not> copyback \<Longrightarrow> copies (trace w') = copies (trace w)"
    and "copyback \<Longrightarrow> is_dir t1 (test_results_dir t) \<Longrightarrow>
           copies (trace w') = copies (trace w)
             @ [(input t, test_results_dir t @ [path_name (input t)]),
                (pjoin WORK_DIR (output_path t),
                 test_results_dir t @ [path_name (pjoin WORK_DIR (output_path t))])]"
proof -
  from TestCase_run_steps[OF assms(1,2,4)] assms(3) obtain w2 w3 w4 where
    s1: "save_stream (pjoin (test_results_dir t) (stem program @ ''.stdout'')) (stdout proc)
       \<lparr>fs = t1, trace = trace w @ [Subprocess args]\<rparr> = Inr w2" and
    s2: "save_stream (pjoin (test_results_dir t) (stem program @ ''.stderr'')) (stderr proc) w2 = Inr w3" and
    t': "t' = t" and
    cb: "(if copyback then copy_back t (report_pass t w3) else Inr (report_pass t w3)) = Inr w4" and
    dr: "drain w4 = Inr w'"
    by metis
  show "t' = t" by (rule t')
  have e3: "executions (trace (report_pass t w3)) = executions (trace w) @ [args]"
    using save_stream_effect(1)[OF s1] save_stream_effect(1)[OF s2]
    by (simp add: executions_append report_pass_effect)
  have c3: "copies (trace (report_pass t w3)) = copies (trace w)"
    using save_stream_effect(2)[OF s1] save_stream_effect(2)[OF s2]
    by (simp add: copies_append report_pass_effect)
  have e5: "executions (trace w') = executions (trace w4)"
    and c5: "copies (trace w') = copies (trace w4)"
    using drain_effect[OF dr] by simp_all
  have d3: "is_dir t1 (test_results_dir t) \<Longrightarrow> is_dir (fs (report_pass t w3)) (test_results_dir t)"
    using save_stream_effect(3)[OF s1] save_stream_effect(3)[OF s2]
    by (simp add: report_pass_effect)
  have e4: "executions (trace w4) = executions (trace (report_pass t w3))"
  proof (cases copyback)
    case True
    with cb have c: "copy_back t (report_pass t w3) = Inr w4" by simp
    then obtain w5 where
      c1: "shutil_copy (input t) (test_results_dir t) (report_pass t w3) = Inr w5" and
      c2: "shutil_copy (pjoin WORK_DIR (output_path t)) (test_results_dir t) w5 = Inr w4"
      by (auto simp: copy_back_def split: sum.splits)
    from shutil_copy_trace[OF c1] shutil_copy_trace[OF c2] show ?thesis by simp
  next
    case False
    with cb show ?thesis by simp
  qed
  show "executions (trace w') = executions (trace w) @ [args]"
    by (simp add: e5 e4 e3)
  show "\<not> copyback \<Longrightarrow> copies (trace w') = copies (trace w)"
    using cb by (auto simp: c5 c3)
  show "copyback \<Longrightarrow> is_dir t1 (test_results_dir t) \<Longrightarrow>
           copies (trace w') = copies (trace w)
             @ [(input t, test_results_dir t @ [path_name (input t)]),
                (pjoin WORK_DIR (output_path t),
                 test_results_dir t @ [path_name (pjoin WORK_DIR (output_path t))])]"
    using cb copy_back_effect(2)[of t "report_pass t w3" w4] d3
    by (simp add: c5 c3)
qed

lemma TestCase_run_argv:
  assumes "TestCase_run prog program copyback t w = Inr (t', w')"
  obtains args where "argv program t = Inr args"
  using assms by (cases "argv program t") (auto simp: TestCase_run_def)

lemma TestCase_run_result:
  assumes "TestCase_run prog program copyback t w = Inr (t', w')"
  shows "t' = t\<lparr>TestCase.status := TestCase.status t'\<rparr>"
    and "executions (trace w') = executions (trace w) @ [projr (argv program t)]"
proof -
  from assms obtain args where a: "argv program t = Inr args" by (rule TestCase_run_argv)
  obtain t1 proc where p: "prog args (fs w) = (t1, proc)" by (cases "prog args (fs w)")
  show "t' = t\<lparr>TestCase.status := TestCase.status t'\<rparr>"
    using TestCase_run_nonzero(1)[OF a p _ assms] TestCase_run_zero(1)[OF a p _ assms]
    by (cases "returncode proc = 0") auto
  show "executions (trace w') = executions (trace w) @ [projr (argv program t)]"
    using TestCase_run_nonzero(3)[OF a p _ assms] TestCase_run_zero(2)[OF a p _ assms] a
    by (cases "returncode proc = 0") auto
qed

lemma run_tests_result:
  "run_tests prog program copyback ts st w = Inr (ts', st', w') \<Longrightarrow>
     st' = (st \<and> list_all TestCase.status ts')
     \<and> map test_name ts' = map test_name ts
     \<and> executions (trace w') = executions (trace w) @ map (\<lambda>t. projr (argv program t)) ts"
proof (induction ts arbitrary: st w ts')
  case Nil
  then show ?case by simp
next
  case (Cons t ts)
  from Cons.prems obtain t1 w1 ts1 where
    r1: "TestCase_run prog program copyback t w = Inr (t1, w1)" and
    r2: "run_tests prog program copyback ts (TestCase.status t1 \<and> st) w1 = Inr (ts1, st', w')" and
    ts': "ts' = t1 # ts1"
    by (auto split: sum.splits)
  from TestCase_run_result[OF r1] have
    n: "test_name t1 = test_name t" and
    e: "executions (trace w1) = executions (trace w) @ [projr (argv program t)]"
    by (metis TestCase.select_convs(3) TestCase.surjective TestCase.update_convs(1), simp)
  from Cons.IH[OF r2] n e ts' show ?case by auto
qed

lemma run_tests_append:
  assumes "run_tests prog program copyback xs st w = Inr (xs', st1, w1)"
      and "run_tests prog program copyback ys st1 w1 = Inr (ys', st2, w2)"
  shows "run_tests prog program copyback (xs @ ys) st w = Inr (xs' @ ys', st2, w2)"
  using assms
proof (induction xs arbitrary: st w xs')
  case Nil
  then show ?case by simp
next
  case (Cons t ts)
  from Cons.prems(1) obtain t1 w3 ts1 where
    r1: "TestCase_run prog program copyback t w = Inr (t1, w3)" and
    r2: "run_tests prog program copyback ts (TestCase.status t1 \<and> st) w3 = Inr (ts1, st1, w1)" and
    xs': "xs' = t1 # ts1"
    by (auto split: sum.splits)
  from Cons.IH[OF r2 Cons.prems(2)] r1 xs' show ?case by simp
qed

text \<open>
  Claim C5. A test case enters \<open>run\<close> with the status true its constructor
  gave it. When \<open>run\<close> returns, the status is pass exactly if the exit code of
  the subprocess is 0; for every other code it is fail and the last line
  logged names the program and the code. Nothing here depends on what the
  process wrote to its output streams.
\<close>

theorem status_follows_exit_code:
  assumes "TestCase.status t" and "argv program t = Inr args"
      and "prog args (fs w) = (t1, proc)"
      and "TestCase_run prog program copyback t w = Inr (t', w')"
  shows "(TestCase.status t' \<longleftrightarrow> returncode proc = 0)
       \<and> (returncode proc \<noteq> 0 \<longrightarrow>
            last (trace w') =
              Log (test_logger t) INFO
                (test_name t @ '' ['' @ Color_FAIL @ ''FAIL'' @ Color_ENDC @ ''] ''
                   @ str_path program @ '' returned with code ''
                   @ str_int (returncode proc)))"
proof (cases "returncode proc = 0")
  case True
  from TestCase_run_zero(1)[OF assms(2,3) True assms(4)] assms(1) True
  show ?thesis by simp
next
  case False
  from TestCase_run_nonzero(1,2)[OF assms(2,3) False assms(4)] False
  show ?thesis by (simp add: fail_line_def)
qed

theorem status_follows_exit_code_witness:
  "TestCase.status demo_t1
   \<and> returncode (snd (write_then_fail (projr (argv [''prog.py''] demo_t1)) (fs demo_ready))) = 1
   \<and> \<not> TestCase.status (fst (projr (TestCase_run write_then_fail [''prog.py''] False demo_t1 demo_ready)))
   \<and> last (trace (snd (projr (TestCase_run write_then_fail [''prog.py''] False demo_t1 demo_ready))))
       = Log ''__main___demo_t1'' INFO
           (''t1 ['' @ Color_FAIL @ ''FAIL'' @ Color_ENDC @ ''] /prog.py returned with code 1'')
   \<and> returncode (snd (copy_program (projr (argv [''prog.py''] demo_t1)) (fs demo_ready))) = 0
   \<and> TestCase.status (fst (projr (TestCase_run copy_program [''prog.py''] False demo_t1 demo_ready)))"
proof -
  let ?args = "projr (argv [''prog.py''] demo_t1)"
  let ?r = "TestCase_run write_then_fail [''prog.py''] False demo_t1 demo_ready"
  let ?q = "TestCase_run copy_program [''prog.py''] False demo_t1 demo_ready"
  have h1: "TestCase.status demo_t1" by code_simp
  have h2: "argv [''prog.py''] demo_t1 = Inr ?args" by code_simp
  have h3: "write_then_fail ?args (fs demo_ready)
              = (fst (write_then_fail ?args (fs demo_ready)),
                 snd (write_then_fail ?args (fs demo_ready)))" by simp
  have h4: "?r = Inr (fst (projr ?r), snd (projr ?r))" by code_simp
  have rc: "returncode (snd (write_then_fail ?args (fs demo_ready))) = 1" by code_simp
  have g3: "copy_program ?args (fs demo_ready)
              = (fst (copy_program ?args (fs demo_ready)),
                 snd (copy_program ?args (fs demo_ready)))" by simp
  have g4: "?q = Inr (fst (projr ?q), snd (projr ?q))" by code_simp
  have rc0: "returncode (snd (copy_program ?args (fs demo_ready))) = 0" by code_simp
  have nm: "test_logger demo_t1 = ''__main___demo_t1''" "test_name demo_t1 = ''t1''"
    "str_path [''prog.py''] = ''/prog.py''" "str_int 1 = ''1''"
    by code_simp+
  from status_follows_exit_code[OF h1 h2 h3 h4] status_follows_exit_code[OF h1 h2 g3 g4]
    h1 rc rc0 nm
  show ?thesis by simp
qed

text \<open>
  Claim C6. A test case enters \<open>run\<close> with status true, and its result
  directory, made by the constructor, is still a directory when the program
  has finished. Then \<open>run\<close> copies exactly two files when copy-back is enabled
  and the exit code is 0: the input file and the scratch output file, each
  into the result directory of the test under its own name. It copies nothing
  otherwise, so whenever something was copied the status of the test is pass.
\<close>

theorem copy_back_two_files:
  assumes "TestCase.status t" and "argv program t = Inr args"
      and "prog args (fs w) = (t1, proc)"
      and "is_dir t1 (test_results_dir t)"
      and "TestCase_run prog program copyback t w = Inr (t', w')"
  shows "copies (trace w') = copies (trace w)
           @ (if copyback \<and> returncode proc = 0
              then [(input t, test_results_dir t @ [path_name (input t)]),
                    (pjoin WORK_DIR (output_path t),
                     test_results_dir t @ [path_name (pjoin WORK_DIR (output_path t))])]
              else [])
       \<and> (copies (trace w') \<noteq> copies (trace w) \<longrightarrow> TestCase.status t')"
proof (cases "returncode proc = 0")
  case True
  note z = TestCase_run_zero[OF assms(2,3) True assms(5)]
  from z(1) z(3) z(4)[OF _ assms(4)] assms(1) True show ?thesis
    by (cases copyback) simp_all
next
  case False
  from TestCase_run_nonzero(4)[OF assms(2,3) False assms(5)] False show ?thesis by simp
qed

theorem copy_back_two_files_witness:
  "TestCase.status demo_t1
   \<and> is_dir (fst (copy_program (projr (argv [''prog.py''] demo_t1)) (fs demo_ready)))
        (test_results_dir demo_t1)
   \<and> copies (trace demo_ready) = []
   \<and> copies (trace (snd (projr (TestCase_run copy_program [''prog.py''] True demo_t1 demo_ready))))
       = [([''test'', ''inputs'', ''a.txt''], [''results'', ''demo'', ''t1'', ''a.txt'']),
          ([''test'', ''__workdir'', ''a.out''], [''results'', ''demo'', ''t1'', ''a.out''])]
   \<and> lookup (fs (snd (projr (TestCase_run copy_program [''prog.py''] True demo_t1 demo_ready))))
        [''results'', ''demo'', ''t1'']
       = Some (Dir [(''t1.log'', File []), (''prog.stdout'', File [68, 111, 110, 101, 33]),
                    (''a.txt'', File [104, 105]), (''a.out'', File [104, 105])])
   \<and> copies (trace (snd (projr (TestCase_run write_then_fail [''prog.py''] True demo_t1 demo_ready))))
       = []"
proof -
  let ?args = "projr (argv [''prog.py''] demo_t1)"
  let ?r = "TestCase_run copy_program [''prog.py''] True demo_t1 demo_ready"
  let ?q = "TestCase_run write_then_fail [''prog.py''] True demo_t1 demo_ready"
  have h1: "TestCase.status demo_t1" by code_simp
  have h2: "argv [''prog.py''] demo_t1 = Inr ?args" by code_simp
  have h3: "copy_program ?args (fs demo_ready)
              = (fst (copy_program ?args (fs demo_ready)),
                 snd (copy_program ?args (fs demo_ready)))" by simp
  have h4: "is_dir (fst (copy_program ?args (fs demo_ready))) (test_results_dir demo_t1)"
    by code_simp
  have h5: "?r = Inr (fst (projr ?r), snd (projr ?r))" by code_simp
  have g3: "write_then_fail ?args (fs demo_ready)
              = (fst (write_then_fail ?args (fs demo_ready)),
                 snd (write_then_fail ?args (fs demo_ready)))" by simp
  have g4: "is_dir (fst (write_then_fail ?args (fs demo_ready))) (test_results_dir demo_t1)"
    by code_simp
  have g5: "?q = Inr (fst (projr ?q), snd (projr ?q))" by code_simp
  have v: "returncode (snd (copy_program ?args (fs demo_ready))) = 0"
    "returncode (snd (write_then_fail ?args (fs demo_ready))) = 1"
    "copies (trace demo_ready) = []"
    "input demo_t1 = [''test'', ''inputs'', ''a.txt'']"
    "test_results_dir demo_t1 = [''results'', ''demo'', ''t1'']"
    "pjoin WORK_DIR (output_path demo_t1) = [''test'', ''__workdir'', ''a.out'']"
    by code_simp+
  have c: "lookup (fs (snd (projr ?r))) [''results'', ''demo'', ''t1'']
       = Some (Dir [(''t1.log'', File []), (''prog.stdout'', File [68, 111, 110, 101, 33]),
                    (''a.txt'', File [104, 105]), (''a.out'', File [104, 105])])"
    by code_simp
  from copy_back_two_files[OF h1 h2 h3 h4 h5] copy_back_two_files[OF h1 h2 g3 g4 g5]
    h1 h4 v c
  show ?thesis by (simp add: path_name_def)
qed

subsection \<open>The loop over the tests of a suite\<close>

text \<open>
  Claim C10. Cut the loop of \<open>TestSuite.run\<close> at any point: the status after
  the whole loop implies the status at the cut, so the status only ever goes
  from true to false; and once a test before the cut has recorded a failure,
  the status is false at the cut and at the end, whatever the later tests do.
\<close>

theorem suite_status_never_recovers:
  assumes "run_tests prog program copyback xs st w = Inr (xs', st1, w1)"
      and "run_tests prog program copyback ys st1 w1 = Inr (ys', st2, w2)"
  shows "run_tests prog program copyback (xs @ ys) st w = Inr (xs' @ ys', st2, w2)
       \<and> (st2 \<longrightarrow> st1)
       \<and> ((\<exists>t \<in> set xs'. \<not> TestCase.status t) \<longrightarrow> \<not> st1 \<and> \<not> st2)"
proof -
  from run_tests_result[OF assms(1)] have a: "st1 = (st \<and> list_all TestCase.status xs')"
    by simp
  from run_tests_result[OF assms(2)] have b: "st2 = (st1 \<and> list_all TestCase.status ys')"
    by simp
  from a b run_tests_append[OF assms] show ?thesis
    by (auto simp: list_all_iff)
qed

theorem suite_status_never_recovers_witness:
  "run_tests copy_program [''prog.py''] False [hd (tests two_suite)] True two_ready
     = Inr (fst (projr (run_tests copy_program [''prog.py''] False [hd (tests two_suite)] True two_ready)),
            False,
            snd (snd (projr (run_tests copy_program [''prog.py''] False [hd (tests two_suite)] True two_ready))))
   \<and> map TestCase.status
        (fst (projr (run_tests copy_program [''prog.py''] False (tl (tests two_suite)) False
           (snd (snd (projr (run_tests copy_program [''prog.py''] False [hd (tests two_suite)] True two_ready)))))))
       = [True]
   \<and> fst (snd (projr (run_tests copy_program [''prog.py''] False
                        ([hd (tests two_suite)] @ tl (tests two_suite)) True two_ready)))
       = False"
proof -
  let ?x = "run_tests copy_program [''prog.py''] False [hd (tests two_suite)] True two_ready"
  let ?w1 = "snd (snd (projr ?x))"
  let ?y = "run_tests copy_program [''prog.py''] False (tl (tests two_suite)) False ?w1"
  have h1: "?x = Inr (fst (projr ?x), False, ?w1)" by code_simp
  have h2: "?y = Inr (fst (projr ?y), False, snd (snd (projr ?y)))" by code_simp
  have v: "map TestCase.status (fst (projr ?y)) = [True]" by code_simp
  from suite_status_never_recovers[OF h1 h2] h1 v show ?thesis by simp
qed

text \<open>
  The loop at the end of \<open>run\<close> removes every entry of the scratch directory
  that the pattern matches; on the path with exit code 0 it is reached.
\<close>

lemma os_remove_listdir:
  assumes "os_remove (d @ [n]) w = Inr w'"
  shows "listdir (fs w') d = removeAll n (listdir (fs w) d)"
proof -
  from assms have w': "fs w' = store (d @ [n]) None (fs w)"
    by (auto simp: os_remove_def split: option.splits node.splits)
  show ?thesis
    by (auto simp: listdir_def w' lookup_store_parent set_entry_def names_delete
        split: option.splits node.splits)
qed

lemma remove_each_listdir:
  "remove_each (map (\<lambda>n. d @ [n]) ns) w = Inr w' \<Longrightarrow>
     listdir (fs w') d = filter (\<lambda>n. n \<notin> set ns) (listdir (fs w) d)"
proof (induction ns arbitrary: w)
  case Nil
  then show ?case by simp
next
  case (Cons n ns)
  from Cons.prems obtain w1 where
    r: "os_remove (d @ [n]) w = Inr w1" and
    rest: "remove_each (map (\<lambda>n. d @ [n]) ns) w1 = Inr w'"
    by (auto split: sum.splits)
  from Cons.IH[OF rest] os_remove_listdir[OF r] show ?case
    by (auto simp: removeAll_filter_not_eq intro: filter_cong)
qed

lemma drain_removes_visible:
  assumes "drain w = Inr w'"
  shows "glob_star (fs w') WORK_DIR = []"
proof -
  from assms have
    "listdir (fs w') WORK_DIR =
       filter (\<lambda>n. n \<notin> set (filter (\<lambda>n. \<not> hidden n) (listdir (fs w) WORK_DIR)))
         (listdir (fs w) WORK_DIR)"
    unfolding drain_def glob_star_def map_map[symmetric]
    by (rule remove_each_listdir)
  then show ?thesis by (auto simp: glob_star_def filter_empty_conv)
qed

lemma passing_test_drains_scratch:
  assumes "argv program t = Inr args" and "prog args (fs w) = (t1, proc)"
      and "returncode proc = 0"
      and "TestCase_run prog program copyback t w = Inr (t', w')"
  shows "glob_star (fs w') WORK_DIR = []"
proof -
  from TestCase_run_steps[OF assms(1,2,4)] assms(3) obtain w4 where "drain w4 = Inr w'"
    by metis
  then show ?thesis by (rule drain_removes_visible)
qed

text \<open>
  Claim C3. The claim has the scratch directory empty after every test,
  failed ones included. \<open>run\<close> returns right after \<open>test_fail\<close>, before the
  loop that removes the entries of the scratch directory: here the program
  writes its output file and exits with code 1, and the file is still in the
  scratch directory when the whole run is over. With the program that exits
  with code 0 the same suite leaves the scratch directory empty.
\<close>

theorem failed_test_leaves_scratch:
  "\<not> isl failing_run
   \<and> executions (trace (snd (projr failing_run)))
       = [[''python3'', ''/prog.py'', ''/test/inputs/a.txt'', ''/test/__workdir/a.out'', ''--option'']]
   \<and> map (map TestCase.status) (map tests (fst (projr failing_run))) = [[False]]
   \<and> lookup (fs (snd (projr failing_run))) WORK_DIR = Some (Dir [(''a.out'', File [120])])
   \<and> map (map TestCase.status) (map tests (fst (projr passing_run))) = [[True]]
   \<and> lookup (fs (snd (projr passing_run))) WORK_DIR = Some (Dir [])"
  by code_simp

subsection \<open>Configuring a suite\<close>

lemma TestCase_init_result:
  assumes "TestCase_init suite test topdir inp outp opts w = Inr (t, w')"
  shows "TestCase.status t" and "test_name t = test"
  using assms
  by (auto simp: TestCase_init_def Let_def split: sum.splits)

lemma configure_loop_complete:
  "list_all has_input es \<Longrightarrow> configure_loop es s w = Inr (s', w') \<Longrightarrow>
     (\<exists>new. tests s' = tests s @ new \<and> map test_name new = map fst es
             \<and> list_all TestCase.status new)
     \<and> TestSuite.status s' = TestSuite.status s"
proof (induction es arbitrary: s w)
  case Nil
  then show ?case by simp
next
  case (Cons e es)
  obtain n c where e: "e = (n, c)" by (cases e)
  from Cons.prems(1) have hi: "has_input e" and rest: "list_all has_input es" by simp_all
  from hi e obtain v where v: "c ''input'' = Some v"
    by (auto simp: has_input_def split: option.splits)
  from Cons.prems(2) e v obtain i where i: "v = VStr i"
    by (cases v) auto
  from Cons.prems(2) e v i obtain t w1 where
    init: "TestCase_init (TestSuite.suite_name s) n (TestSuite.top_results_dir s)
             (pjoin TEST_DIR i) (stem (pjoin TEST_DIR i) @ ''.out'') (TestSuite.options s) w
           = Inr (t, w1)" and
    loop: "configure_loop es (s\<lparr>tests := tests s @ [t]\<rparr>) w1 = Inr (s', w')"
    by (auto split: sum.splits)
  from Cons.IH[OF rest loop] obtain new where
    new: "tests s' = (tests s @ [t]) @ new" "map test_name new = map fst es"
         "list_all TestCase.status new"
    and st: "TestSuite.status s' = TestSuite.status s"
    by auto
  from new TestCase_init_result[OF init] e
  have "tests s' = tests s @ (t # new) \<and> map test_name (t # new) = map fst (e # es)
          \<and> list_all TestCase.status (t # new)"
    by simp
  with st show ?case by blast
qed

lemma configure_loop_append:
  "list_all has_input pre \<Longrightarrow>
     configure_loop (pre @ rest) s w =
       (case configure_loop pre s w of
          Inl e \<Rightarrow> Inl e
        | Inr (s1, w1) \<Rightarrow> configure_loop rest s1 w1)"
proof (induction pre arbitrary: s w)
  case Nil
  then show ?case by simp
next
  case (Cons e pre)
  obtain n c where e: "e = (n, c)" by (cases e)
  from Cons.prems have hi: "has_input e" and rest: "list_all has_input pre" by simp_all
  from hi e obtain v where v: "c ''input'' = Some v"
    by (auto simp: has_input_def split: option.splits)
  show ?case
    using Cons.IH[OF rest] e v
    by (auto split: sum.splits toml_value.splits)
qed

lemma configure_loop_suite_name:
  "configure_loop es s w = Inr (s', w') \<Longrightarrow>
     TestSuite.suite_name s' = TestSuite.suite_name s"
proof (induction es s w rule: configure_loop.induct)
  case (1 s w)
  then show ?case by simp
next
  case (2 testcase content rest s w)
  then show ?case
    by (auto split: option.splits toml_value.splits sum.splits)
qed

text \<open>
  No step of the constructor sets a status to false: a suite leaves
  \<open>__init__\<close> with status true, whatever happened to its configuration, and
  so does each of its tests.
\<close>

lemma configure_loop_status:
  "configure_loop es s w = Inr (s', w') \<Longrightarrow>
     TestSuite.status s' = TestSuite.status s
     \<and> (list_all TestCase.status (tests s) \<longrightarrow> list_all TestCase.status (tests s'))"
proof (induction es s w rule: configure_loop.induct)
  case (1 s w)
  then show ?case by simp
next
  case (2 testcase content rest s w)
  show ?case
  proof (cases "content ''input''")
    case None
    with 2(2) show ?thesis by auto
  next
    case (Some v)
    with 2(2) obtain i where i: "v = VStr i" by (cases v) auto
    from 2(2) Some i obtain t w1 where
      init: "TestCase_init (TestSuite.suite_name s) testcase (TestSuite.top_results_dir s)
               (pjoin TEST_DIR i) (stem (pjoin TEST_DIR i) @ ''.out'') (TestSuite.options s) w
             = Inr (t, w1)" and
      loop: "configure_loop rest (s\<lparr>tests := tests s @ [t]\<rparr>) w1 = Inr (s', w')"
      by (auto split: sum.splits)
    from 2(1)[OF Some i init refl loop] TestCase_init_result(1)[OF init]
    show ?thesis by simp
  qed
qed

lemma TestSuite_init_status:
  assumes "TestSuite_init toml name topdir w = Inr (s, w')"
  shows "TestSuite.status s" and "list_all TestCase.status (tests s)"
proof -
  let ?s0 = "new_suite name topdir"
  from assms obtain w2 where c: "TestSuite_configure_tests toml ?s0 w2 = Inr (s, w')"
    by (auto simp: TestSuite_init_def Let_def split: sum.splits)
  have "TestSuite.status s \<and> list_all TestCase.status (tests s)"
  proof (cases "lookup (fs w2) (config_file ?s0)")
    case None
    with c show ?thesis by (auto simp: TestSuite_configure_tests_def new_suite_def)
  next
    case (Some nd)
    show ?thesis
    proof (cases nd)
      case (Dir es)
      with Some c show ?thesis by (auto simp: TestSuite_configure_tests_def new_suite_def)
    next
      case (File b)
      with Some c obtain cfg where
        "configure_loop (testcases cfg) (?s0\<lparr>options := shared_options cfg\<rparr>) w2 = Inr (s, w')"
        by (auto simp: TestSuite_configure_tests_def split: sum.splits)
      from configure_loop_status[OF this] show ?thesis by (simp add: new_suite_def)
    qed
  qed
  then show "TestSuite.status s" and "list_all TestCase.status (tests s)" by simp_all
qed

text \<open>
  Claim C2, as the code has it. When an entry of the test table has no
  \<open>input\<close>, \<open>configure_tests\<close> stops at the first such entry: the tests
  declared before it have been constructed, in the order of the table, and
  stay in the suite; no test is constructed for the entry or for any entry
  after it; and the error naming the entry is logged, followed by the FAIL
  line of the suite.
\<close>

theorem configuration_stops_at_missing_input:
  assumes "lookup (fs w) (config_file s) = Some (File b)" and "toml b = Inr cfg"
      and "testcases cfg = pre @ (n, c) # post"
      and "list_all has_input pre" and "\<not> has_input (n, c)"
      and "tests s = []"
      and "TestSuite_configure_tests toml s w = Inr (s', w')"
  shows "map test_name (tests s') = map fst pre
       \<and> (\<exists>evs. trace w' = evs
             @ [Log (suite_logger s) ERROR (no_input_msg s n),
                Log (suite_logger s) INFO (finished_FAIL s)])"
proof -
  let ?s0 = "s\<lparr>options := shared_options cfg\<rparr>"
  from assms(1,2,3,7) have loop:
    "configure_loop (pre @ (n, c) # post) ?s0 w = Inr (s', w')"
    by (simp add: TestSuite_configure_tests_def)
  then obtain s1 w1 where
    p: "configure_loop pre ?s0 w = Inr (s1, w1)" and
    r: "configure_loop ((n, c) # post) s1 w1 = Inr (s', w')"
    by (auto simp: configure_loop_append[OF assms(4)] split: sum.splits)
  from assms(5) have none: "c ''input'' = None"
    by (simp add: has_input_def split: option.splits)
  from r none have s': "s1 = s'" by simp
  from r none have w': "w' = suite_fail_msg (no_input_msg s1 n) s1 w1" by auto
  from configure_loop_suite_name[OF p]
  have nm: "TestSuite.suite_name s1 = TestSuite.suite_name s" by simp
  from configure_loop_complete[OF assms(4) p] assms(6) s'
  have names: "map test_name (tests s') = map fst pre" by auto
  from w' nm have "trace w' = trace w1
             @ [Log (suite_logger s) ERROR (no_input_msg s n),
                Log (suite_logger s) INFO (finished_FAIL s)]"
    by (simp add: suite_fail_msg_def emit_def suite_logger_def finished_FAIL_def
        no_input_msg_def config_file_def)
  with names show ?thesis by blast
qed

theorem configuration_stops_at_missing_input_witness:
  "lookup (fs demo_cleaned) (config_file (new_suite ''demo'' [''results''])) = Some (File [1])
   \<and> testcases (projr (second_without_input [1]))
       = [(''t1'', [''input'' \<mapsto> VStr ''a.txt''])] @ (''t2'', Map.empty) # []
   \<and> list_all has_input [(''t1'', [''input'' \<mapsto> VStr ''a.txt''])]
   \<and> \<not> has_input (''t2'', Map.empty)
   \<and> map test_name (tests partial_suite) = [''t1'']"
proof -
  let ?s = "new_suite ''demo'' [''results'']"
  have h1: "lookup (fs demo_cleaned) (config_file ?s) = Some (File [1])" by code_simp
  have h2: "second_without_input [1] = Inr (projr (second_without_input [1]))"
    by (simp add: second_without_input_def)
  have h3: "testcases (projr (second_without_input [1]))
       = [(''t1'', [''input'' \<mapsto> VStr ''a.txt''])] @ (''t2'', Map.empty) # []"
    by (simp add: second_without_input_def testcases_def)
  have h4: "list_all has_input [(''t1'', [''input'' \<mapsto> VStr ''a.txt''])]"
    by (simp add: has_input_def)
  have h5: "\<not> has_input (''t2'', Map.empty)" by (simp add: has_input_def)
  have h6: "tests ?s = []" by (simp add: new_suite_def)
  have h7: "TestSuite_configure_tests second_without_input ?s demo_cleaned
              = Inr (partial_suite, partial_ready)" by code_simp
  from configuration_stops_at_missing_input[OF h1 h2 h3 h4 h5 h6 h7] h1 h3 h4 h5
  show ?thesis by simp
qed

text \<open>
  Claim C2 as stated has no test of such a suite constructed or run. In the
  sample checkout the second of two entries has no \<open>input\<close>: the first test is
  constructed, the controller runs it, and the suite ends with status true and
  the PASS line.
\<close>

theorem partial_suite_runs_counterexample:
  "\<not> isl partial_run
   \<and> map (map test_name) (map tests (fst (projr partial_run))) = [[''t1'']]
   \<and> executions (trace (snd (projr partial_run)))
       = [[''python3'', ''/prog.py'', ''/test/inputs/a.txt'', ''/test/__workdir/a.out'']]
   \<and> map TestSuite.status (fst (projr partial_run)) = [True]
   \<and> last (trace (snd (projr partial_run)))
       = Log ''__main___demo'' INFO
           (''Suite demo finished with status '' @ Color_BOLD @ Color_PASS @ ''PASS'' @ Color_ENDC)"
  by code_simp

text \<open>
  Claim C1. The claim has a suite without configuration file end with status
  fail. \<open>configure_tests\<close> logs the error and the FAIL line and returns, and
  nothing sets \<open>status\<close>: in the sample checkout the suite \<open>nosuch\<close> has no
  configuration file, its run starts no subprocess, and it ends with status
  true and the PASS line.
\<close>

theorem missing_config_suite_passes:
  "\<not> is_file (fs demo_world) [''test'', ''suites'', ''nosuch.toml'']
   \<and> \<not> isl missing_config_run
   \<and> map tests (fst (projr missing_config_run)) = [[]]
   \<and> executions (trace (snd (projr missing_config_run))) = []
   \<and> map TestSuite.status (fst (projr missing_config_run)) = [True]
   \<and> last (trace (snd (projr missing_config_run)))
       = Log ''__main___nosuch'' INFO
           (''Suite nosuch finished with status '' @ Color_BOLD @ Color_PASS @ ''PASS'' @ Color_ENDC)"
  by code_simp

subsection \<open>The aggregate status of a suite\<close>

lemma suite_report_effect:
  "executions (trace (suite_pass s w)) = executions (trace w)"
  "executions (trace (suite_fail s w)) = executions (trace w)"
  "executions (trace (suite_fail_msg msg s w)) = executions (trace w)"
  by (simp_all add: suite_pass_def suite_fail_def suite_fail_msg_def emit_def executions_append)

text \<open>
  Claim C4, as the code has it. For a suite configured from an existing
  configuration file all of whose entries have an \<open>input\<close>, and run against an
  existing program: the status after the run is the conjunction of the
  statuses of its tests, the tests are those of the table in its order, and the
  subprocesses are started in that order, one per test. With an empty table
  the status is therefore true.
\<close>

theorem suite_status_is_conjunction:
  assumes "lookup (fs w) (config_file s) = Some (File b)" and "toml b = Inr cfg"
      and "list_all has_input (testcases cfg)"
      and "TestSuite.status s" and "tests s = []"
      and "TestSuite_configure_tests toml s w = Inr (s1, w1)"
      and "is_file (fs w2) program"
      and "TestSuite_run prog program copyback s1 w2 = Inr (s2, w3)"
  shows "TestSuite.status s2 = list_all TestCase.status (tests s2)
       \<and> map test_name (tests s2) = map fst (testcases cfg)
       \<and> executions (trace w3) =
           executions (trace w2) @ map (\<lambda>t. projr (argv program t)) (tests s1)
       \<and> map test_name (tests s1) = map fst (testcases cfg)
       \<and> (testcases cfg = [] \<longrightarrow> TestSuite.status s2)"
proof -
  from assms(1,2,6) have loop:
    "configure_loop (testcases cfg) (s\<lparr>options := shared_options cfg\<rparr>) w = Inr (s1, w1)"
    by (simp add: TestSuite_configure_tests_def)
  from configure_loop_complete[OF assms(3) loop] assms(4,5) have
    names: "map test_name (tests s1) = map fst (testcases cfg)" and
    st1: "TestSuite.status s1"
    by auto
  from assms(7,8) st1 obtain ts st w4 where
    run: "run_tests prog program copyback (tests s1) (TestSuite.status s1) w2 = Inr (ts, st, w4)" and
    s2: "s2 = s1\<lparr>TestSuite.status := st, tests := ts\<rparr>" and
    w3: "w3 = (if \<not> st then suite_fail s1 w4 else suite_pass s1 w4)"
    by (auto simp: TestSuite_run_def split: sum.splits)
  from run_tests_result[OF run] st1 have
    a: "st = list_all TestCase.status ts" and
    b: "map test_name ts = map test_name (tests s1)" and
    c: "executions (trace w4) =
          executions (trace w2) @ map (\<lambda>t. projr (argv program t)) (tests s1)"
    by simp_all
  from w3 c have e: "executions (trace w3) =
          executions (trace w2) @ map (\<lambda>t. projr (argv program t)) (tests s1)"
    by (simp add: suite_report_effect)
  from a b names s2 e show ?thesis by auto
qed

theorem suite_status_is_conjunction_witness:
  "lookup (fs demo_cleaned) (config_file (new_suite ''demo'' [''results''])) = Some (File [1])
   \<and> list_all has_input (testcases (projr (missing_then_present [1])))
   \<and> is_file (fs two_ready) [''prog.py'']
   \<and> map TestCase.status
        (tests (fst (projr (TestSuite_run copy_program [''prog.py''] False two_suite two_ready))))
       = [False, True]
   \<and> TestSuite.status
        (fst (projr (TestSuite_run copy_program [''prog.py''] False two_suite two_ready)))
       = False
   \<and> map test_name
        (tests (fst (projr (TestSuite_run copy_program [''prog.py''] False two_suite two_ready))))
       = [''t0'', ''t1'']
   \<and> executions
        (trace (snd (projr (TestSuite_run copy_program [''prog.py''] False two_suite two_ready))))
       = [[''python3'', ''/prog.py'', ''/test/inputs/missing.txt'', ''/test/__workdir/missing.out''],
          [''python3'', ''/prog.py'', ''/test/inputs/a.txt'', ''/test/__workdir/a.out'']]"
proof -
  let ?s = "new_suite ''demo'' [''results'']"
  let ?r = "TestSuite_run copy_program [''prog.py''] False two_suite two_ready"
  have h1: "lookup (fs demo_cleaned) (config_file ?s) = Some (File [1])" by code_simp
  have h2: "missing_then_present [1] = Inr (projr (missing_then_present [1]))"
    by (simp add: missing_then_present_def)
  have h3: "list_all has_input (testcases (projr (missing_then_present [1])))" by code_simp
  have h4: "TestSuite.status ?s" and h5: "tests ?s = []" by (simp_all add: new_suite_def)
  have h6: "TestSuite_configure_tests missing_then_present ?s demo_cleaned
              = Inr (two_suite, two_ready)" by code_simp
  have h7: "is_file (fs two_ready) [''prog.py'']" by code_simp
  have h8: "?r = Inr (fst (projr ?r), snd (projr ?r))" by code_simp
  have v: "map TestCase.status (tests (fst (projr ?r))) = [False, True]"
    "map fst (testcases (projr (missing_then_present [1]))) = [''t0'', ''t1'']"
    "executions (trace two_ready) = []"
    "list_all TestCase.status (tests (fst (projr ?r))) = False"
    "map (\<lambda>t. projr (argv [''prog.py''] t)) (tests two_suite)
       = [[''python3'', ''/prog.py'', ''/test/inputs/missing.txt'', ''/test/__workdir/missing.out''],
          [''python3'', ''/prog.py'', ''/test/inputs/a.txt'', ''/test/__workdir/a.out'']]"
    by code_simp+
  from suite_status_is_conjunction[OF h1 h2 h3 h4 h5 h6 h7 h8] h1 h3 h7 v
  show ?thesis by simp
qed

text \<open>
  Claim C4 as stated has every suite that ends up with zero tests fail. A
  configuration file without test table configures successfully; the suite
  has no tests and ends with status true and the PASS line.
\<close>

theorem zero_tests_pass_counterexample:
  "\<not> isl no_tests_run
   \<and> map tests (fst (projr no_tests_run)) = [[]]
   \<and> map TestSuite.status (fst (projr no_tests_run)) = [True]
   \<and> last (trace (snd (projr no_tests_run)))
       = Log ''__main___demo'' INFO
           (''Suite demo finished with status '' @ Color_BOLD @ Color_PASS @ ''PASS'' @ Color_ENDC)"
  by code_simp

end
